theory Spec2Isabelle
  imports Main
begin

section \<open>The server store of dqlite (store.go)\<close>

text \<open>
  \<^verbatim>\<open>store.go\<close> keeps the addresses of the dqlite servers in one SQL table and reads and
  replaces them inside transactions of Go's \<^verbatim>\<open>database/sql\<close> on SQLite. The functions
  \<^verbatim>\<open>DefaultServerStore\<close>, \<^verbatim>\<open>NewServerStore\<close>, \<^verbatim>\<open>Get\<close> and \<^verbatim>\<open>Set\<close> are embedded below statement
  by statement. The database itself is not part of the repository; it is modelled by the
  primitives of the next subsection, one for each call that \<^verbatim>\<open>store.go\<close> makes on it.
\<close>

subsection \<open>The database behind the store\<close>

text \<open>
  Modelled from the spec: the database (Go's \<^verbatim>\<open>database/sql\<close> with the SQLite driver) that
  \<^verbatim>\<open>store.go\<close> calls is missing from the sources. The design describes it as one table with
  one unique text column behind a single connection, with transactions whose changes
  reach the table at the commit and not before, and with a failed commit that leaves the
  state from before the transaction.

  A table has the layout that \<^verbatim>\<open>DefaultServerStore\<close> creates: one text column, declared
  unique. It is found under its schema and table name and holds the name of its column
  and its rows, in the order in which they were inserted.
\<close>

type_synonym tables = "(string \<times> string) \<rightharpoonup> (string \<times> string list)"

text \<open>
  The handle has a single connection (\<^verbatim>\<open>SetMaxOpenConns(1)\<close>). The connection is either
  idle or held by one open transaction, which works on its own copy of the tables.
\<close>

datatype conn = Idle | InTx tables

text \<open>
  The calls that \<^verbatim>\<open>store.go\<close> makes on the transaction, recorded as they are made, with
  the schema, table and column that the statement names. Closing the prepared statement
  and the result rows touches neither the tables nor the transaction and is not recorded.
\<close>

datatype call =
    Begin
  | Exec_delete "string \<times> string"
  | Prepare_insert "string \<times> string" string
  | Exec_insert string
  | Query_select "string \<times> string" string
  | Commit
  | Rollback

record database =
  tables :: tables
  conn :: conn
  calls :: "call list"

text \<open>
  What a call on the database can answer. \<open>Failure\<close> stands for every failure that does
  not depend on the data: an I/O error, a lost connection, a cancelled context.
\<close>

datatype db_error =
    Failure
  | Constraint_unique
  | No_such_table
  | No_such_column
  | Tx_done

text \<open>\<^verbatim>\<open>errors.Wrap(err, msg)\<close>: the message and the cause that it carries.\<close>

datatype error = Wrap string db_error

text \<open>A Go slice is \<^verbatim>\<open>nil\<close> or allocated; both can have length zero.\<close>

datatype 'a slice = Nil_slice | Slice "'a list"

fun elems :: "'a slice \<Rightarrow> 'a list" where
  "elems Nil_slice = []"
| "elems (Slice xs) = xs"

fun append_slice :: "'a slice \<Rightarrow> 'a \<Rightarrow> 'a slice" where
  "append_slice s x = Slice (elems s @ [x])"

definition called :: "call \<Rightarrow> database \<Rightarrow> database" where
  "called c db = db\<lparr>calls := calls db @ [c]\<rparr>"

text \<open>
  Every primitive takes a flag \<open>fail\<close>: whether this call meets a failure of the
  environment. The flags of one run of \<^verbatim>\<open>Get\<close> or \<^verbatim>\<open>Set\<close> form its plan.

  \<^verbatim>\<open>db.Begin()\<close> waits for the connection. While another transaction holds it the call
  does not return, which is the value \<open>None\<close>.
\<close>

definition db_Begin :: "bool \<Rightarrow> database \<Rightarrow> (database \<times> db_error option) option" where
  "db_Begin fail db =
     (case conn db of
        InTx w \<Rightarrow> None
      | Idle \<Rightarrow>
          if fail then Some (called Begin db, Some Failure)
          else Some (called Begin (db\<lparr>conn := InTx (tables db)\<rparr>), None))"

text \<open>\<^verbatim>\<open>tx.ExecContext(ctx, "DELETE FROM schema.table")\<close>\<close>

definition tx_exec_delete ::
  "bool \<Rightarrow> string \<times> string \<Rightarrow> database \<Rightarrow> database \<times> db_error option" where
  "tx_exec_delete fail k db =
     (let db' = called (Exec_delete k) db in
      case conn db' of
        Idle \<Rightarrow> (db', Some Tx_done)
      | InTx w \<Rightarrow>
          if fail then (db', Some Failure)
          else (case w k of
                  None \<Rightarrow> (db', Some No_such_table)
                | Some (c, rows) \<Rightarrow> (db'\<lparr>conn := InTx (w(k \<mapsto> (c, [])))\<rparr>, None)))"

text \<open>\<^verbatim>\<open>tx.PrepareContext(ctx, "INSERT INTO schema.table(column) VALUES (?)")\<close>\<close>

definition tx_prepare_insert ::
  "bool \<Rightarrow> string \<times> string \<Rightarrow> string \<Rightarrow> database \<Rightarrow> database \<times> db_error option" where
  "tx_prepare_insert fail k col db =
     (let db' = called (Prepare_insert k col) db in
      case conn db' of
        Idle \<Rightarrow> (db', Some Tx_done)
      | InTx w \<Rightarrow>
          if fail then (db', Some Failure)
          else (case w k of
                  None \<Rightarrow> (db', Some No_such_table)
                | Some (c, rows) \<Rightarrow>
                    if c = col then (db', None) else (db', Some No_such_column)))"

text \<open>
  \<^verbatim>\<open>stmt.ExecContext(ctx, address)\<close>: one row more, unless the unique column holds the
  address already; the statement that fails changes nothing.
\<close>

definition stmt_exec_insert ::
  "bool \<Rightarrow> string \<times> string \<Rightarrow> string \<Rightarrow> database \<Rightarrow> database \<times> db_error option" where
  "stmt_exec_insert fail k address db =
     (let db' = called (Exec_insert address) db in
      case conn db' of
        Idle \<Rightarrow> (db', Some Tx_done)
      | InTx w \<Rightarrow>
          if fail then (db', Some Failure)
          else (case w k of
                  None \<Rightarrow> (db', Some No_such_table)
                | Some (c, rows) \<Rightarrow>
                    if address \<in> set rows then (db', Some Constraint_unique)
                    else (db'\<lparr>conn := InTx (w(k \<mapsto> (c, rows @ [address])))\<rparr>, None)))"

text \<open>
  Modelled from the spec: \<^verbatim>\<open>tx.Commit()\<close> of the missing database. It ends the transaction
  whether it succeeds or not, and a commit that fails leaves the tables as they were
  before the transaction ("the backend guarantees a failed commit leaves the
  pre-transaction state intact").
\<close>

definition tx_Commit :: "bool \<Rightarrow> database \<Rightarrow> database \<times> db_error option" where
  "tx_Commit fail db =
     (let db' = called Commit db in
      case conn db' of
        Idle \<Rightarrow> (db', Some Tx_done)
      | InTx w \<Rightarrow>
          if fail then (db'\<lparr>conn := Idle\<rparr>, Some Failure)
          else (db'\<lparr>tables := w, conn := Idle\<rparr>, None))"

text \<open>
  \<^verbatim>\<open>tx.Rollback()\<close> drops the copy of the transaction and frees the connection; on a
  transaction that has ended it does nothing. \<^verbatim>\<open>store.go\<close> never reads its result.
\<close>

definition tx_Rollback :: "database \<Rightarrow> database" where
  "tx_Rollback db = (called Rollback db)\<lparr>conn := Idle\<rparr>"

text \<open>\<^verbatim>\<open>tx.QueryContext(ctx, "SELECT column FROM schema.table")\<close>\<close>

definition tx_query_select ::
  "bool \<Rightarrow> string \<times> string \<Rightarrow> string \<Rightarrow> database \<Rightarrow> database \<times> (db_error + string list)" where
  "tx_query_select fail k col db =
     (let db' = called (Query_select k col) db in
      case conn db' of
        Idle \<Rightarrow> (db', Inl Tx_done)
      | InTx w \<Rightarrow>
          if fail then (db', Inl Failure)
          else (case w k of
                  None \<Rightarrow> (db', Inl No_such_table)
                | Some (c, rows) \<Rightarrow>
                    if c = col then (db', Inr rows) else (db', Inl No_such_column)))"

text \<open>
  \<^verbatim>\<open>db.Exec("CREATE TABLE IF NOT EXISTS servers (address TEXT, UNIQUE(address))")\<close> runs on
  the connection outside any transaction, so it waits for the connection as
  \<^verbatim>\<open>db.Begin()\<close> does. An unqualified table name is in the schema \<^verbatim>\<open>main\<close>.
\<close>

definition db_exec_create :: "bool \<Rightarrow> database \<Rightarrow> (database \<times> db_error option) option" where
  "db_exec_create fail db =
     (case conn db of
        InTx w \<Rightarrow> None
      | Idle \<Rightarrow>
          if fail then Some (db, Some Failure)
          else (case tables db (''main'', ''servers'') of
                  None \<Rightarrow>
                    Some (db\<lparr>tables := (tables db)((''main'', ''servers'') \<mapsto> (''address'', []))\<rparr>,
                          None)
                | Some t \<Rightarrow> Some (db, None)))"

text \<open>
  \<^verbatim>\<open>sql.Open("sqlite3", filename)\<close>: a handle on the database kept under that file name.
  A file that does not exist yet is a database without tables.
\<close>

definition sql_Open :: "bool \<Rightarrow> (string \<Rightarrow> database) \<Rightarrow> string \<Rightarrow> db_error + database" where
  "sql_Open fail files filename = (if fail then Inl Failure else Inr (files filename))"

subsection \<open>The store\<close>

record DatabaseServerStore =
  db :: database
  schema :: string
  table :: string
  column :: string

definition NewServerStore ::
  "database \<Rightarrow> string \<Rightarrow> string \<Rightarrow> string \<Rightarrow> DatabaseServerStore" where
  "NewServerStore d s t c = \<lparr>db = d, schema = s, table = t, column = c\<rparr>"

record open_plan =
  op_open :: bool
  op_create :: bool

definition DefaultServerStore ::
  "open_plan \<Rightarrow> (string \<Rightarrow> database) \<Rightarrow> string
     \<Rightarrow> (DatabaseServerStore option \<times> error option) option" where
  "DefaultServerStore p files filename =
     (case sql_Open (op_open p) files filename of
        Inl e \<Rightarrow> Some (None, Some (Wrap ''failed to open database'' e))
      | Inr d \<Rightarrow>
          (case db_exec_create (op_create p) d of
             None \<Rightarrow> None
           | Some (d', Some e) \<Rightarrow> Some (None, Some (Wrap ''failed to create servers table'' e))
           | Some (d', None) \<Rightarrow>
               Some (Some (NewServerStore d' ''main'' ''servers'' ''address''), None)))"

subsection \<open>Get\<close>

record get_plan =
  gp_begin :: bool
  gp_query :: bool
  gp_scan :: "nat \<Rightarrow> bool"
  gp_rows_err :: bool

text \<open>
  The loop over \<^verbatim>\<open>rows.Next()\<close>: \<^verbatim>\<open>rows.Scan\<close> of row \<open>i\<close> fails where the plan says so,
  and then the loop returns the error at once.
\<close>

fun scan_rows :: "(nat \<Rightarrow> bool) \<Rightarrow> nat \<Rightarrow> string list \<Rightarrow> string slice \<Rightarrow> error + string slice" where
  "scan_rows f i [] addresses = Inr addresses"
| "scan_rows f i (address # rest) addresses =
     (if f i then Inl (Wrap ''failed to fetch server address'' Failure)
      else scan_rows f (Suc i) rest (append_slice addresses address))"

text \<open>The body of \<^verbatim>\<open>Get\<close> after \<^verbatim>\<open>db.Begin()\<close> has succeeded, up to its \<^verbatim>\<open>return\<close>.\<close>

definition Get_body ::
  "get_plan \<Rightarrow> DatabaseServerStore \<Rightarrow> database \<Rightarrow> database \<times> string slice \<times> error option" where
  "Get_body p d db1 =
     (case tx_query_select (gp_query p) (schema d, table d) (column d) db1 of
        (db2, Inl e) \<Rightarrow> (db2, Nil_slice, Some (Wrap ''failed to query servers table'' e))
      | (db2, Inr rows) \<Rightarrow>
          (case scan_rows (gp_scan p) 0 rows (Slice []) of
             Inl e \<Rightarrow> (db2, Nil_slice, Some e)
           | Inr addresses \<Rightarrow>
               if gp_rows_err p then (db2, Nil_slice, Some (Wrap ''result set failure'' Failure))
               else (db2, addresses, None)))"

text \<open>
  \<^verbatim>\<open>Get\<close>: \<^verbatim>\<open>defer tx.Rollback()\<close> is registered once the transaction has begun and so
  runs after the body on each of its returns.
\<close>

definition Get ::
  "get_plan \<Rightarrow> DatabaseServerStore
     \<Rightarrow> (DatabaseServerStore \<times> string slice \<times> error option) option" where
  "Get p d =
     (case db_Begin (gp_begin p) (db d) of
        None \<Rightarrow> None
      | Some (db1, Some e) \<Rightarrow>
          Some (d\<lparr>db := db1\<rparr>, Nil_slice, Some (Wrap ''failed to begin transaction'' e))
      | Some (db1, None) \<Rightarrow>
          (case Get_body p d db1 of
             (db2, result) \<Rightarrow> Some (d\<lparr>db := tx_Rollback db2\<rparr>, result)))"

subsection \<open>Set\<close>

record set_plan =
  sp_begin :: bool
  sp_delete :: bool
  sp_prepare :: bool
  sp_insert :: "nat \<Rightarrow> bool"
  sp_commit :: bool

text \<open>
  The loop over the addresses: the insert of address \<open>i\<close> that fails rolls the
  transaction back and returns the wrapped error.
\<close>

fun insert_loop ::
  "(nat \<Rightarrow> bool) \<Rightarrow> nat \<Rightarrow> string \<times> string \<Rightarrow> string list \<Rightarrow> database
     \<Rightarrow> database \<times> error option" where
  "insert_loop f i k [] db1 = (db1, None)"
| "insert_loop f i k (address # rest) db1 =
     (case stmt_exec_insert (f i) k address db1 of
        (db2, Some e) \<Rightarrow>
          (tx_Rollback db2, Some (Wrap (''failed to insert server '' @ address) e))
      | (db2, None) \<Rightarrow> insert_loop f (Suc i) k rest db2)"

text \<open>The body of \<^verbatim>\<open>Set\<close> after \<^verbatim>\<open>db.Begin()\<close> has succeeded.\<close>

definition Set_body ::
  "set_plan \<Rightarrow> DatabaseServerStore \<Rightarrow> string list \<Rightarrow> database \<Rightarrow> database \<times> error option" where
  "Set_body p d addresses db1 =
     (case tx_exec_delete (sp_delete p) (schema d, table d) db1 of
        (db2, Some e) \<Rightarrow>
          (tx_Rollback db2, Some (Wrap ''failed to delete existing servers rows'' e))
      | (db2, None) \<Rightarrow>
          (case tx_prepare_insert (sp_prepare p) (schema d, table d) (column d) db2 of
             (db3, Some e) \<Rightarrow>
               (tx_Rollback db3, Some (Wrap ''failed to prepare insert statement'' e))
           | (db3, None) \<Rightarrow>
               (case insert_loop (sp_insert p) 0 (schema d, table d) addresses db3 of
                  (db4, Some e) \<Rightarrow> (db4, Some e)
                | (db4, None) \<Rightarrow>
                    (case tx_Commit (sp_commit p) db4 of
                       (db5, Some e) \<Rightarrow> (db5, Some (Wrap ''failed to commit transaction'' e))
                     | (db5, None) \<Rightarrow> (db5, None)))))"

definition Set ::
  "set_plan \<Rightarrow> DatabaseServerStore \<Rightarrow> string list
     \<Rightarrow> (DatabaseServerStore \<times> error option) option" where
  "Set p d addresses =
     (case db_Begin (sp_begin p) (db d) of
        None \<Rightarrow> None
      | Some (db1, Some e) \<Rightarrow>
          Some (d\<lparr>db := db1\<rparr>, Some (Wrap ''failed to begin transaction'' e))
      | Some (db1, None) \<Rightarrow>
          (case Set_body p d addresses db1 of
             (db2, result) \<Rightarrow> Some (d\<lparr>db := db2\<rparr>, result)))"

text \<open>
  The steps of a run of \<^verbatim>\<open>Set\<close> as the design lists them: begin, delete all rows,
  prepare the insert on the column, insert each address in the order of the input,
  commit.
\<close>

definition set_steps :: "DatabaseServerStore \<Rightarrow> string list \<Rightarrow> call list" where
  "set_steps d addresses =
     [Begin, Exec_delete (schema d, table d), Prepare_insert (schema d, table d) (column d)]
     @ map Exec_insert addresses @ [Commit]"

text \<open>
  Which step of \<open>set_steps\<close> fails, in the words of the design: step 0, the begin,
  step 1, the delete, and step 2, the prepare, fail when the environment fails them or
  when the table or its column is not there; an insert fails when the environment fails
  it or when its address is among the addresses inserted before it (the unique column);
  the last step, the commit, fails when the environment fails it. The step that a run
  fails at is the first step that fails, and \<open>step_message\<close> is the message of the error
  that \<^verbatim>\<open>Set\<close> wraps around its cause.
\<close>

definition step_fails :: "set_plan \<Rightarrow> DatabaseServerStore \<Rightarrow> string list \<Rightarrow> nat \<Rightarrow> bool" where
  "step_fails p d addresses n =
     (if n = 0 then sp_begin p
      else if n = 1 then sp_delete p \<or> tables (db d) (schema d, table d) = None
      else if n = 2 then
        sp_prepare p \<or>
        (case tables (db d) (schema d, table d) of
           None \<Rightarrow> True
         | Some (c, rows) \<Rightarrow> c \<noteq> column d)
      else if n < length addresses + 3 then
        sp_insert p (n - 3) \<or> addresses ! (n - 3) \<in> set (take (n - 3) addresses)
      else sp_commit p)"

definition step_message :: "string list \<Rightarrow> nat \<Rightarrow> string" where
  "step_message addresses n =
     (if n = 0 then ''failed to begin transaction''
      else if n = 1 then ''failed to delete existing servers rows''
      else if n = 2 then ''failed to prepare insert statement''
      else if n < length addresses + 3 then ''failed to insert server '' @ addresses ! (n - 3)
      else ''failed to commit transaction'')"

text \<open>
  A transaction is rolled back when it has ended, so that the connection is free again,
  and the tables are what they were before it began.
\<close>

definition rolled_back :: "database \<Rightarrow> database \<Rightarrow> bool" where
  "rolled_back before after \<longleftrightarrow> conn after = Idle \<and> tables after = tables before"

text \<open>Plans without any failure of the environment.\<close>

definition get_ok :: get_plan where
  "get_ok = \<lparr>gp_begin = False, gp_query = False, gp_scan = (\<lambda>i. False), gp_rows_err = False\<rparr>"

definition set_ok :: set_plan where
  "set_ok = \<lparr>sp_begin = False, sp_delete = False, sp_prepare = False,
             sp_insert = (\<lambda>i. False), sp_commit = False\<rparr>"

subsection \<open>Stores and plans for the examples\<close>

definition servers_db :: "string list \<Rightarrow> database" where
  "servers_db rows =
     \<lparr>tables = [(''main'', ''servers'') \<mapsto> (''address'', rows)], conn = Idle, calls = []\<rparr>"

definition servers_store :: "string list \<Rightarrow> DatabaseServerStore" where
  "servers_store rows = NewServerStore (servers_db rows) ''main'' ''servers'' ''address''"

definition commit_fails :: set_plan where
  "commit_fails = set_ok\<lparr>sp_commit := True\<rparr>"

definition second_insert_fails :: set_plan where
  "second_insert_fails = set_ok\<lparr>sp_insert := (\<lambda>i. i = 1)\<rparr>"

definition open_ok :: open_plan where
  "open_ok = \<lparr>op_open = False, op_create = False\<rparr>"

definition servers_files :: "string list \<Rightarrow> string \<Rightarrow> database" where
  "servers_files rows filename = servers_db rows"

section \<open>Properties\<close>

subsection \<open>What the calls on the database do\<close>

lemma called_simps [simp]:
  "tables (called c x) = tables x" "conn (called c x) = conn x"
  "calls (called c x) = calls x @ [c]"
  by (simp_all add: called_def)

lemma tx_Rollback_simps [simp]:
  "tables (tx_Rollback x) = tables x" "conn (tx_Rollback x) = Idle"
  "calls (tx_Rollback x) = calls x @ [Rollback]"
  by (simp_all add: tx_Rollback_def)

lemma tx_exec_delete_err:
  "tx_exec_delete f k x = (y, Some e) \<Longrightarrow>
     tables y = tables x \<and> conn y = conn x \<and> calls y = calls x @ [Exec_delete k]"
  by (auto simp: tx_exec_delete_def Let_def split: conn.splits if_splits option.splits)

lemma tx_exec_delete_ok:
  "tx_exec_delete f k x = (y, None) \<Longrightarrow>
     tables y = tables x \<and> calls y = calls x @ [Exec_delete k] \<and> \<not> f \<and>
     (\<exists>w c rows. conn x = InTx w \<and> w k = Some (c, rows) \<and> conn y = InTx (w(k \<mapsto> (c, []))))"
  by (auto simp: tx_exec_delete_def Let_def split: conn.splits if_splits option.splits)

lemma tx_prepare_insert_frame:
  "tx_prepare_insert f k col x = (y, r) \<Longrightarrow>
     tables y = tables x \<and> conn y = conn x \<and> calls y = calls x @ [Prepare_insert k col]"
  by (auto simp: tx_prepare_insert_def Let_def split: conn.splits if_splits option.splits)

lemma tx_prepare_insert_ok:
  "tx_prepare_insert f k col x = (y, None) \<Longrightarrow> conn x = InTx w \<Longrightarrow>
     \<not> f \<and> (\<exists>rows. w k = Some (col, rows))"
  by (auto simp: tx_prepare_insert_def Let_def split: conn.splits if_splits option.splits)

lemma stmt_exec_insert_err:
  "stmt_exec_insert f k a x = (y, Some e) \<Longrightarrow>
     tables y = tables x \<and> conn y = conn x \<and> calls y = calls x @ [Exec_insert a]"
  by (auto simp: stmt_exec_insert_def Let_def split: conn.splits if_splits option.splits)

lemma stmt_exec_insert_ok:
  "stmt_exec_insert f k a x = (y, None) \<Longrightarrow>
     tables y = tables x \<and> calls y = calls x @ [Exec_insert a] \<and> \<not> f \<and>
     (\<exists>w c rows. conn x = InTx w \<and> w k = Some (c, rows) \<and> a \<notin> set rows \<and>
        conn y = InTx (w(k \<mapsto> (c, rows @ [a]))))"
  by (auto simp: stmt_exec_insert_def Let_def split: conn.splits if_splits option.splits)

lemma stmt_exec_insert_run:
  "conn x = InTx w \<Longrightarrow> w k = Some (c, rows) \<Longrightarrow>
   stmt_exec_insert f k a x =
     (if f then (called (Exec_insert a) x, Some Failure)
      else if a \<in> set rows then (called (Exec_insert a) x, Some Constraint_unique)
      else ((called (Exec_insert a) x)\<lparr>conn := InTx (w(k \<mapsto> (c, rows @ [a])))\<rparr>, None))"
  by (simp add: stmt_exec_insert_def Let_def)

lemma tx_Commit_err:
  "tx_Commit f x = (y, Some e) \<Longrightarrow>
     tables y = tables x \<and> conn y = Idle \<and> calls y = calls x @ [Commit] \<and>
     (conn x \<noteq> Idle \<longrightarrow> f \<and> e = Failure)"
  by (auto simp: tx_Commit_def Let_def split: conn.splits if_splits)

lemma tx_Commit_ok:
  "tx_Commit f x = (y, None) \<Longrightarrow>
     conn x = InTx (tables y) \<and> conn y = Idle \<and> calls y = calls x @ [Commit] \<and> \<not> f"
  by (auto simp: tx_Commit_def Let_def split: conn.splits if_splits)

lemma insert_loop_err:
  "insert_loop f i k as x = (y, Some e) \<Longrightarrow>
     tables y = tables x \<and> conn y = Idle \<and>
     (\<exists>n<length as. calls y = calls x @ map Exec_insert (take (Suc n) as) @ [Rollback])"
proof (induction as arbitrary: i x)
  case Nil
  then show ?case by simp
next
  case (Cons a as)
  obtain z r where s: "stmt_exec_insert (f i) k a x = (z, r)"
    by (cases "stmt_exec_insert (f i) k a x")
  show ?case
  proof (cases r)
    case None
    with Cons.prems s have l: "insert_loop f (Suc i) k as z = (y, Some e)" by simp
    from Cons.IH[OF l] obtain n where
      n: "n < length as" "calls y = calls z @ map Exec_insert (take (Suc n) as) @ [Rollback]"
      and t: "tables y = tables z" "conn y = Idle" by blast
    from s None have z: "tables z = tables x" "calls z = calls x @ [Exec_insert a]"
      using stmt_exec_insert_ok by blast+
    have "Suc n < length (a # as)" using n(1) by simp
    moreover have "calls y = calls x @ map Exec_insert (take (Suc (Suc n)) (a # as)) @ [Rollback]"
      using n(2) z(2) by simp
    ultimately show ?thesis using t z(1) by metis
  next
    case (Some e')
    with Cons.prems s have y: "y = tx_Rollback z" by simp
    from s Some have z: "tables z = tables x" "calls z = calls x @ [Exec_insert a]"
      using stmt_exec_insert_err by blast+
    have "calls y = calls x @ map Exec_insert (take (Suc 0) (a # as)) @ [Rollback]"
      using y z by simp
    moreover have "0 < length (a # as)" by simp
    ultimately show ?thesis using y z(1) by (metis tx_Rollback_simps(1,2))
  qed
qed

lemma insert_loop_done:
  "insert_loop f i k as x = (y, None) \<Longrightarrow>
     tables y = tables x \<and> calls y = calls x @ map Exec_insert as \<and>
     (\<forall>w c rows. conn x = InTx w \<longrightarrow> w k = Some (c, rows) \<longrightarrow>
        conn y = InTx (w(k \<mapsto> (c, rows @ as))) \<and> distinct as \<and> set as \<inter> set rows = {})"
proof (induction as arbitrary: i x)
  case Nil
  then show ?case by auto
next
  case (Cons a as)
  obtain z r where s: "stmt_exec_insert (f i) k a x = (z, r)"
    by (cases "stmt_exec_insert (f i) k a x")
  from Cons.prems s have r: "r = None" by (cases r) auto
  with Cons.prems s have l: "insert_loop f (Suc i) k as z = (y, None)" by simp
  note ih = Cons.IH[OF l]
  from stmt_exec_insert_ok[OF s[unfolded r]] obtain w c rows where
    z: "tables z = tables x" "calls z = calls x @ [Exec_insert a]"
       "conn x = InTx w" "w k = Some (c, rows)" "a \<notin> set rows"
       "conn z = InTx (w(k \<mapsto> (c, rows @ [a])))" by blast
  have "(w(k \<mapsto> (c, rows @ [a]))) k = Some (c, rows @ [a])" by simp
  with ih z(6) have
    c: "conn y = InTx ((w(k \<mapsto> (c, rows @ [a])))(k \<mapsto> (c, (rows @ [a]) @ as)))"
       "distinct as" "set as \<inter> set (rows @ [a]) = {}" by blast+
  from c z show ?case using ih by auto
qed

lemma insert_loop_ok:
  "conn x = InTx w \<Longrightarrow> w k = Some (c, rows) \<Longrightarrow> distinct as \<Longrightarrow> set as \<inter> set rows = {} \<Longrightarrow>
     \<exists>y. insert_loop (\<lambda>i. False) i k as x = (y, None)"
proof (induction as arbitrary: i x w rows)
  case Nil
  then show ?case by simp
next
  case (Cons a as)
  let ?z = "(called (Exec_insert a) x)\<lparr>conn := InTx (w(k \<mapsto> (c, rows @ [a])))\<rparr>"
  from Cons.prems have s: "stmt_exec_insert False k a x = (?z, None)"
    by (simp add: stmt_exec_insert_run)
  have "\<exists>y. insert_loop (\<lambda>i. False) (Suc i) k as ?z = (y, None)"
  proof (rule Cons.IH)
    show "conn ?z = InTx (w(k \<mapsto> (c, rows @ [a])))" by simp
    show "(w(k \<mapsto> (c, rows @ [a]))) k = Some (c, rows @ [a])" by simp
    show "distinct as" using Cons.prems by simp
    show "set as \<inter> set (rows @ [a]) = {}" using Cons.prems by auto
  qed
  with s show ?case by simp
qed

lemma insert_loop_repeat:
  "conn x = InTx w \<Longrightarrow> w k = Some (c, rows) \<Longrightarrow> \<not> (distinct as \<and> set as \<inter> set rows = {}) \<Longrightarrow>
     \<exists>y a. insert_loop (\<lambda>i. False) i k as x =
              (y, Some (Wrap (''failed to insert server '' @ a) Constraint_unique)) \<and>
            a \<in> set as \<and> (a \<in> set rows \<or> 1 < count_list as a)"
proof (induction as arbitrary: i x w rows)
  case Nil
  then show ?case by simp
next
  case (Cons a as)
  show ?case
  proof (cases "a \<in> set rows")
    case True
    with Cons.prems have "stmt_exec_insert False k a x = (called (Exec_insert a) x, Some Constraint_unique)"
      by (simp add: stmt_exec_insert_run)
    with True show ?thesis by auto
  next
    case False
    let ?z = "(called (Exec_insert a) x)\<lparr>conn := InTx (w(k \<mapsto> (c, rows @ [a])))\<rparr>"
    from Cons.prems False have s: "stmt_exec_insert False k a x = (?z, None)"
      by (simp add: stmt_exec_insert_run)
    have "\<exists>y b. insert_loop (\<lambda>i. False) (Suc i) k as ?z =
              (y, Some (Wrap (''failed to insert server '' @ b) Constraint_unique)) \<and>
            b \<in> set as \<and> (b \<in> set (rows @ [a]) \<or> 1 < count_list as b)"
    proof (rule Cons.IH)
      show "conn ?z = InTx (w(k \<mapsto> (c, rows @ [a])))" by simp
      show "(w(k \<mapsto> (c, rows @ [a]))) k = Some (c, rows @ [a])" by simp
      show "\<not> (distinct as \<and> set as \<inter> set (rows @ [a]) = {})"
        using Cons.prems False by auto
    qed
    then obtain y b where
      l: "insert_loop (\<lambda>i. False) (Suc i) k as ?z =
              (y, Some (Wrap (''failed to insert server '' @ b) Constraint_unique))"
      and b: "b \<in> set as" "b \<in> set (rows @ [a]) \<or> 1 < count_list as b" by blast
    have "b \<in> set rows \<or> 1 < count_list (a # as) b"
      using b by (auto simp: count_list_0_iff intro: Suc_lessI)
    with l s b(1) show ?thesis by auto
  qed
qed

lemma insert_loop_must_fail:
  "conn x = InTx w \<Longrightarrow> w k = Some (c, rows) \<Longrightarrow> \<not> (distinct as \<and> set as \<inter> set rows = {}) \<Longrightarrow>
     \<exists>y e. insert_loop f i k as x = (y, Some e)"
proof -
  assume a: "conn x = InTx w" "w k = Some (c, rows)" "\<not> (distinct as \<and> set as \<inter> set rows = {})"
  obtain y r where l: "insert_loop f i k as x = (y, r)" by (cases "insert_loop f i k as x")
  show ?thesis
  proof (cases r)
    case None
    with insert_loop_done[of f i k as x y] l a show ?thesis by blast
  next
    case (Some e)
    with l show ?thesis by blast
  qed
qed

subsection \<open>The body of Set\<close>

lemma insert_loop_err_msg:
  "insert_loop f i k as x = (y, Some e) \<Longrightarrow>
     \<exists>a e'. a \<in> set as \<and> e = Wrap (''failed to insert server '' @ a) e'"
proof (induction as arbitrary: i x)
  case Nil
  then show ?case by simp
next
  case (Cons a as)
  obtain z r where s: "stmt_exec_insert (f i) k a x = (z, r)"
    by (cases "stmt_exec_insert (f i) k a x")
  show ?case
  proof (cases r)
    case None
    with Cons.prems s have "insert_loop f (Suc i) k as z = (y, Some e)" by simp
    from Cons.IH[OF this] show ?thesis by auto
  next
    case (Some e')
    with Cons.prems s have "e = Wrap (''failed to insert server '' @ a) e'" by simp
    then show ?thesis by auto
  qed
qed

lemma Set_body_err:
  assumes "Set_body p d A x = (y, Some e)"
  shows "tables y = tables x \<and> conn y = Idle"
proof -
  let ?k = "(schema d, table d)"
  obtain x2 r2 where s2: "tx_exec_delete (sp_delete p) ?k x = (x2, r2)"
    by (cases "tx_exec_delete (sp_delete p) ?k x")
  show ?thesis
  proof (cases r2)
    case (Some e2)
    with assms s2 have "y = tx_Rollback x2" by (simp add: Set_body_def)
    with tx_exec_delete_err[OF s2[unfolded Some]] show ?thesis by simp
  next
    case None
    note t2 = tx_exec_delete_ok[OF s2[unfolded None]]
    obtain x3 r3 where s3: "tx_prepare_insert (sp_prepare p) ?k (column d) x2 = (x3, r3)"
      by (cases "tx_prepare_insert (sp_prepare p) ?k (column d) x2")
    note t3 = tx_prepare_insert_frame[OF s3]
    show ?thesis
    proof (cases r3)
      case (Some e3)
      with assms s2 s3 None have "y = tx_Rollback x3" by (simp add: Set_body_def)
      with t2 t3 show ?thesis by simp
    next
      case None3: None
      obtain x4 r4 where s4: "insert_loop (sp_insert p) 0 ?k A x3 = (x4, r4)"
        by (cases "insert_loop (sp_insert p) 0 ?k A x3")
      show ?thesis
      proof (cases r4)
        case (Some e4)
        with assms s2 s3 s4 None None3 have "y = x4" by (simp add: Set_body_def)
        with insert_loop_err[OF s4[unfolded Some]] t2 t3 show ?thesis by simp
      next
        case None4: None
        note t4 = insert_loop_done[OF s4[unfolded None4]]
        obtain x5 r5 where s5: "tx_Commit (sp_commit p) x4 = (x5, r5)"
          by (cases "tx_Commit (sp_commit p) x4")
        from assms s2 s3 s4 s5 None None3 None4 obtain e5 where r5: "r5 = Some e5" and "y = x5"
          by (cases r5) (auto simp: Set_body_def)
        with tx_Commit_err[OF s5[unfolded r5]] t2 t3 t4 show ?thesis by simp
      qed
    qed
  qed
qed

lemma Set_body_done:
  assumes "Set_body p d A x = (y, None)" and "conn x = InTx w"
  shows "distinct A \<and> conn y = Idle \<and>
         (\<exists>rows. w (schema d, table d) = Some (column d, rows)) \<and>
         tables y = w((schema d, table d) \<mapsto> (column d, A)) \<and>
         calls y = calls x @ tl (set_steps d A)"
proof -
  let ?k = "(schema d, table d)"
  obtain x2 r2 where s2: "tx_exec_delete (sp_delete p) ?k x = (x2, r2)"
    by (cases "tx_exec_delete (sp_delete p) ?k x")
  from assms s2 have r2: "r2 = None" by (cases r2) (auto simp: Set_body_def)
  from tx_exec_delete_ok[OF s2[unfolded r2]] assms(2) obtain c rows where
    t2: "calls x2 = calls x @ [Exec_delete ?k]" "w ?k = Some (c, rows)"
        "conn x2 = InTx (w(?k \<mapsto> (c, [])))" by auto
  obtain x3 r3 where s3: "tx_prepare_insert (sp_prepare p) ?k (column d) x2 = (x3, r3)"
    by (cases "tx_prepare_insert (sp_prepare p) ?k (column d) x2")
  from assms s2 s3 r2 have r3: "r3 = None" by (cases r3) (auto simp: Set_body_def)
  note t3 = tx_prepare_insert_frame[OF s3]
  from tx_prepare_insert_ok[OF s3[unfolded r3] t2(3)] have c: "c = column d" by simp
  obtain x4 r4 where s4: "insert_loop (sp_insert p) 0 ?k A x3 = (x4, r4)"
    by (cases "insert_loop (sp_insert p) 0 ?k A x3")
  from assms s2 s3 s4 r2 r3 have r4: "r4 = None" by (cases r4) (auto simp: Set_body_def)
  have x3: "conn x3 = InTx (w(?k \<mapsto> (c, [])))" "(w(?k \<mapsto> (c, []))) ?k = Some (c, [])"
    using t3 t2(3) by simp_all
  from insert_loop_done[OF s4[unfolded r4]] x3 have
    t4: "calls x4 = calls x3 @ map Exec_insert A" "distinct A"
        "conn x4 = InTx ((w(?k \<mapsto> (c, [])))(?k \<mapsto> (c, [] @ A)))" by blast+
  obtain x5 r5 where s5: "tx_Commit (sp_commit p) x4 = (x5, r5)"
    by (cases "tx_Commit (sp_commit p) x4")
  from assms s2 s3 s4 s5 r2 r3 r4 have r5: "r5 = None" and y: "y = x5"
    by (cases r5; simp add: Set_body_def)+
  from tx_Commit_ok[OF s5[unfolded r5]] t4(3) have
    t5: "tables x5 = w(?k \<mapsto> (c, A))" "conn x5 = Idle" "calls x5 = calls x4 @ [Commit]"
    by simp_all
  from t2 t3 t4 t5 c y show ?thesis by (simp add: set_steps_def)
qed

lemma Set_body_calls_err:
  assumes "Set_body p d A x = (y, Some e)" and "conn x = InTx w"
  shows "(sp_commit p \<and> e = Wrap ''failed to commit transaction'' Failure \<and>
            calls y = calls x @ tl (set_steps d A)) \<or>
         (e \<noteq> Wrap ''failed to commit transaction'' Failure \<and>
            (\<exists>n. 2 \<le> n \<and> n < length (set_steps d A) \<and>
               calls y = calls x @ tl (take n (set_steps d A)) @ [Rollback]))"
proof -
  let ?k = "(schema d, table d)"
  obtain x2 r2 where s2: "tx_exec_delete (sp_delete p) ?k x = (x2, r2)"
    by (cases "tx_exec_delete (sp_delete p) ?k x")
  show ?thesis
  proof (cases r2)
    case (Some e2)
    with assms s2 have "y = tx_Rollback x2" "e = Wrap ''failed to delete existing servers rows'' e2"
      by (simp_all add: Set_body_def)
    with tx_exec_delete_err[OF s2[unfolded Some]]
    have "e \<noteq> Wrap ''failed to commit transaction'' Failure"
      "calls y = calls x @ tl (take 2 (set_steps d A)) @ [Rollback]"
      by (simp_all add: set_steps_def)
    moreover have "(2::nat) < length (set_steps d A)" by (simp add: set_steps_def)
    ultimately show ?thesis by blast
  next
    case None
    from tx_exec_delete_ok[OF s2[unfolded None]] assms(2) obtain c rows where
      t2: "calls x2 = calls x @ [Exec_delete ?k]" "conn x2 = InTx (w(?k \<mapsto> (c, [])))" by auto
    obtain x3 r3 where s3: "tx_prepare_insert (sp_prepare p) ?k (column d) x2 = (x3, r3)"
      by (cases "tx_prepare_insert (sp_prepare p) ?k (column d) x2")
    note t3 = tx_prepare_insert_frame[OF s3]
    show ?thesis
    proof (cases r3)
      case (Some e3)
      with assms s2 s3 None have "y = tx_Rollback x3" "e = Wrap ''failed to prepare insert statement'' e3"
        by (simp_all add: Set_body_def)
      with t2 t3
      have "e \<noteq> Wrap ''failed to commit transaction'' Failure"
        "calls y = calls x @ tl (take 3 (set_steps d A)) @ [Rollback]"
        by (simp_all add: set_steps_def)
      moreover have "(3::nat) < length (set_steps d A)" "(2::nat) \<le> 3" by (simp_all add: set_steps_def)
      ultimately show ?thesis by blast
    next
      case None3: None
      obtain x4 r4 where s4: "insert_loop (sp_insert p) 0 ?k A x3 = (x4, r4)"
        by (cases "insert_loop (sp_insert p) 0 ?k A x3")
      show ?thesis
      proof (cases r4)
        case (Some e4)
        with assms s2 s3 s4 None None3 have y: "y = x4" "e = e4" by (simp_all add: Set_body_def)
        from insert_loop_err[OF s4[unfolded Some]] obtain m where
          m: "m < length A" "calls x4 = calls x3 @ map Exec_insert (take (Suc m) A) @ [Rollback]"
          by blast
        have "take (Suc (Suc (Suc (Suc m)))) (set_steps d A) =
                [Begin, Exec_delete ?k, Prepare_insert ?k (column d)] @ map Exec_insert (take (Suc m) A)"
          using m(1) by (simp add: set_steps_def take_map)
        with m t2 t3 y have "calls y = calls x @ tl (take (Suc (Suc (Suc (Suc m)))) (set_steps d A)) @ [Rollback]"
          by simp
        moreover have "2 \<le> Suc (Suc (Suc (Suc m)))" "Suc (Suc (Suc (Suc m))) < length (set_steps d A)"
          using m(1) by (simp_all add: set_steps_def)
        moreover have "e \<noteq> Wrap ''failed to commit transaction'' Failure"
          using insert_loop_err_msg[OF s4[unfolded Some]] y by auto
        ultimately show ?thesis by blast
      next
        case None4: None
        note t4 = insert_loop_done[OF s4[unfolded None4]]
        have x3: "conn x3 = InTx (w(?k \<mapsto> (c, [])))" "(w(?k \<mapsto> (c, []))) ?k = Some (c, [])"
          using t3 t2(2) by simp_all
        with t4 have c4: "conn x4 \<noteq> Idle" by auto
        obtain x5 r5 where s5: "tx_Commit (sp_commit p) x4 = (x5, r5)"
          by (cases "tx_Commit (sp_commit p) x4")
        from assms s2 s3 s4 s5 None None3 None4 obtain e5 where r5: "r5 = Some e5" and
          y: "y = x5" "e = Wrap ''failed to commit transaction'' e5"
          by (cases r5) (auto simp: Set_body_def)
        with tx_Commit_err[OF s5[unfolded r5]] c4 t2 t3 t4 show ?thesis
          by (simp add: set_steps_def)
      qed
    qed
  qed
qed

subsection \<open>Get\<close>

lemma scan_rows_ok: "scan_rows (\<lambda>i. False) i rows (Slice xs) = Inr (Slice (xs @ rows))"
  by (induction rows arbitrary: i xs) simp_all


lemma tx_query_select_frame:
  "tx_query_select f k col x = (y, res) \<Longrightarrow> y = called (Query_select k col) x"
  by (simp add: tx_query_select_def Let_def split: conn.splits if_splits option.splits prod.splits)

lemma Get_body_frame:
  "Get_body p d x = (y, res) \<Longrightarrow> y = called (Query_select (schema d, table d) (column d)) x"
  by (auto simp: Get_body_def split: prod.splits sum.splits if_splits dest: tx_query_select_frame)

lemma Get_returns:
  assumes "conn (db d) = Idle"
  shows "\<exists>d' r e. Get p d = Some (d', r, e)"
  using assms by (simp add: Get_def db_Begin_def split: prod.splits)

lemma Get_frame:
  assumes "Get p d = Some (d', r, e)"
  shows "tables (db d') = tables (db d) \<and> conn (db d') = Idle \<and> conn (db d) = Idle
    \<and> schema d' = schema d \<and> table d' = table d \<and> column d' = column d"
proof -
  from assms have idle: "conn (db d) = Idle"
    by (simp add: Get_def db_Begin_def split: conn.splits)
  show ?thesis
  proof (cases "gp_begin p")
    case True
    with assms idle show ?thesis by (auto simp: Get_def db_Begin_def)
  next
    case False
    obtain y res where b: "Get_body p d (called Begin ((db d)\<lparr>conn := InTx (tables (db d))\<rparr>)) = (y, res)"
      by (cases "Get_body p d (called Begin ((db d)\<lparr>conn := InTx (tables (db d))\<rparr>))")
    from Get_body_frame[OF b] assms idle False b show ?thesis
      by (auto simp: Get_def db_Begin_def)
  qed
qed

lemma Get_calls:
  assumes "Get p d = Some (d', r, e)"
  shows "calls (db d') = calls (db d) @
     (if gp_begin p then [Begin]
      else [Begin, Query_select (schema d, table d) (column d), Rollback])"
proof -
  from assms have idle: "conn (db d) = Idle"
    by (simp add: Get_def db_Begin_def split: conn.splits)
  show ?thesis
  proof (cases "gp_begin p")
    case True
    with assms idle show ?thesis by (auto simp: Get_def db_Begin_def)
  next
    case False
    obtain y res where b: "Get_body p d (called Begin ((db d)\<lparr>conn := InTx (tables (db d))\<rparr>)) = (y, res)"
      by (cases "Get_body p d (called Begin ((db d)\<lparr>conn := InTx (tables (db d))\<rparr>))")
    from Get_body_frame[OF b] assms idle False b show ?thesis
      by (auto simp: Get_def db_Begin_def)
  qed
qed

lemma Get_ok:
  assumes "conn (db d) = Idle" "tables (db d) (schema d, table d) = Some (column d, rows)"
  shows "\<exists>d'. Get get_ok d = Some (d', Slice rows, None)"
  using assms
  by (simp add: Get_def db_Begin_def Get_body_def tx_query_select_def get_ok_def scan_rows_ok)

subsection \<open>Runs of Set and Get\<close>

lemma servers_store_simps [simp]:
  "db (servers_store rows) = servers_db rows"
  "schema (servers_store rows) = ''main''"
  "table (servers_store rows) = ''servers''"
  "column (servers_store rows) = ''address''"
  "conn (servers_db rows) = Idle"
  "calls (servers_db rows) = []"
  "tables (servers_db rows) (''main'', ''servers'') = Some (''address'', rows)"
  by (simp_all add: servers_store_def servers_db_def NewServerStore_def)

lemma Set_idle: "Set p d A = Some z \<Longrightarrow> conn (db d) = Idle"
  by (simp add: Set_def db_Begin_def split: conn.splits)

lemma Set_begin_fails:
  "conn (db d) = Idle \<Longrightarrow> sp_begin p \<Longrightarrow>
     Set p d A = Some (d\<lparr>db := called Begin (db d)\<rparr>, Some (Wrap ''failed to begin transaction'' Failure))"
  by (simp add: Set_def db_Begin_def)

lemma Set_begun:
  "conn (db d) = Idle \<Longrightarrow> \<not> sp_begin p \<Longrightarrow>
     Set_body p d A (called Begin ((db d)\<lparr>conn := InTx (tables (db d))\<rparr>)) = (y, r) \<Longrightarrow>
     Set p d A = Some (d\<lparr>db := y\<rparr>, r)"
  by (simp add: Set_def db_Begin_def)

lemma take_set_steps: "0 < n \<Longrightarrow> Begin # tl (take n (set_steps d A)) = take n (set_steps d A)"
  by (cases n) (simp_all add: set_steps_def)

lemma Get_same:
  assumes "conn (db d) = Idle" "conn (db d') = Idle" "tables (db d') = tables (db d)"
    "schema d' = schema d" "table d' = table d" "column d' = column d"
  shows "\<exists>d1 d2 r g. Get q d = Some (d1, r, g) \<and> Get q d' = Some (d2, r, g)"
proof (cases "gp_begin q")
  case True
  with assms show ?thesis by (simp add: Get_def db_Begin_def)
next
  case False
  let ?x = "called Begin ((db d)\<lparr>conn := InTx (tables (db d))\<rparr>)"
  let ?x' = "called Begin ((db d')\<lparr>conn := InTx (tables (db d))\<rparr>)"
  have "snd (Get_body q d' ?x') = snd (Get_body q d ?x)"
    using assms
    by (cases "gp_query q"; cases "tables (db d) (schema d, table d)")
       (auto simp: Get_body_def tx_query_select_def Let_def split: sum.splits)
  then obtain y y' res where "Get_body q d ?x = (y, res)" "Get_body q d' ?x' = (y', res)"
    by (metis prod.collapse)
  with assms False show ?thesis
    by (cases res) (simp add: Get_def db_Begin_def)
qed

lemma Set_ok_run:
  assumes "conn (db d) = Idle" "tables (db d) (schema d, table d) = Some (column d, rows)"
    "distinct A"
  shows "\<exists>y. Set set_ok d A = Some (d\<lparr>db := y\<rparr>, None) \<and> conn y = Idle \<and>
           tables y = (tables (db d))((schema d, table d) \<mapsto> (column d, A)) \<and>
           calls y = calls (db d) @ set_steps d A"
proof -
  let ?k = "(schema d, table d)" and ?w = "tables (db d)"
  let ?x1 = "called Begin ((db d)\<lparr>conn := InTx ?w\<rparr>)"
  let ?x2 = "(called (Exec_delete ?k) ?x1)\<lparr>conn := InTx (?w(?k \<mapsto> (column d, [])))\<rparr>"
  let ?x3 = "called (Prepare_insert ?k (column d)) ?x2"
  have s2: "tx_exec_delete False ?k ?x1 = (?x2, None)"
    using assms(2) by (simp add: tx_exec_delete_def)
  have s3: "tx_prepare_insert False ?k (column d) ?x2 = (?x3, None)"
    by (simp add: tx_prepare_insert_def)
  have c3: "conn ?x3 = InTx (?w(?k \<mapsto> (column d, [])))"
    "(?w(?k \<mapsto> (column d, []))) ?k = Some (column d, [])" by simp_all
  from insert_loop_ok[OF c3 assms(3), of 0] obtain x4 where
    s4: "insert_loop (\<lambda>i. False) 0 ?k A ?x3 = (x4, None)" by auto
  from insert_loop_done[OF s4] c3 have
    t4: "calls x4 = calls ?x3 @ map Exec_insert A"
    "conn x4 = InTx ((?w(?k \<mapsto> (column d, [])))(?k \<mapsto> (column d, [] @ A)))" by blast+
  let ?x5 = "(called Commit x4)\<lparr>tables := ?w(?k \<mapsto> (column d, A)), conn := Idle\<rparr>"
  have s5: "tx_Commit False x4 = (?x5, None)"
    using t4(2) by (simp add: tx_Commit_def)
  have "Set_body set_ok d A ?x1 = (?x5, None)"
    using s2 s3 s4 s5 by (simp add: Set_body_def set_ok_def)
  from Set_begun[OF assms(1) _ this] have "Set set_ok d A = Some (d\<lparr>db := ?x5\<rparr>, None)"
    by (simp add: set_ok_def)
  moreover have "calls ?x5 = calls (db d) @ set_steps d A"
    using t4(1) by (simp add: set_steps_def)
  ultimately show ?thesis by (intro exI[of _ ?x5]) simp
qed


lemma Set_returns:
  assumes "conn (db d) = Idle"
  shows "\<exists>y r. Set p d A = Some (d\<lparr>db := y\<rparr>, r)"
  using assms by (auto simp: Set_def db_Begin_def split: prod.splits)

lemma Set_result:
  assumes "Set p d A = Some (d', r)"
  shows "conn (db d) = Idle \<and> d' = d\<lparr>db := db d'\<rparr> \<and>
     (if sp_begin p then db d' = called Begin (db d) \<and> r = Some (Wrap ''failed to begin transaction'' Failure)
      else Set_body p d A (called Begin ((db d)\<lparr>conn := InTx (tables (db d))\<rparr>)) = (db d', r))"
proof -
  have idle: "conn (db d) = Idle" using assms by (rule Set_idle)
  show ?thesis
  proof (cases "sp_begin p")
    case True
    with assms idle show ?thesis by (auto simp: Set_begin_fails)
  next
    case False
    obtain y r' where b: "Set_body p d A (called Begin ((db d)\<lparr>conn := InTx (tables (db d))\<rparr>)) = (y, r')"
      by (cases "Set_body p d A (called Begin ((db d)\<lparr>conn := InTx (tables (db d))\<rparr>))")
    from Set_begun[OF idle False b] assms b idle False show ?thesis by auto
  qed
qed

lemma Set_body_to_loop:
  assumes "conn x = InTx w" "w (schema d, table d) = Some (column d, rows)"
    "\<not> sp_delete p" "\<not> sp_prepare p"
  shows "Set_body p d A x =
     (case insert_loop (sp_insert p) 0 (schema d, table d) A
             (called (Prepare_insert (schema d, table d) (column d))
                ((called (Exec_delete (schema d, table d)) x)
                   \<lparr>conn := InTx (w((schema d, table d) \<mapsto> (column d, [])))\<rparr>)) of
        (x4, Some e) \<Rightarrow> (x4, Some e)
      | (x4, None) \<Rightarrow>
          (case tx_Commit (sp_commit p) x4 of
             (x5, Some e) \<Rightarrow> (x5, Some (Wrap ''failed to commit transaction'' e))
           | (x5, None) \<Rightarrow> (x5, None)))"
  using assms by (simp add: Set_body_def tx_exec_delete_def tx_prepare_insert_def)

lemma Set_repeat_run:
  assumes "conn (db d) = Idle" "tables (db d) (schema d, table d) = Some (column d, rows)"
    "\<not> distinct A"
  shows "\<exists>y a. Set set_ok d A =
            Some (d\<lparr>db := y\<rparr>, Some (Wrap (''failed to insert server '' @ a) Constraint_unique))
          \<and> 1 < count_list A a"
proof -
  let ?k = "(schema d, table d)" and ?w = "tables (db d)"
  let ?x1 = "called Begin ((db d)\<lparr>conn := InTx ?w\<rparr>)"
  let ?x3 = "called (Prepare_insert ?k (column d))
                ((called (Exec_delete ?k) ?x1)\<lparr>conn := InTx (?w(?k \<mapsto> (column d, [])))\<rparr>)"
  have c3: "conn ?x3 = InTx (?w(?k \<mapsto> (column d, [])))"
    "(?w(?k \<mapsto> (column d, []))) ?k = Some (column d, [])" by simp_all
  have "\<not> (distinct A \<and> set A \<inter> set [] = {})" using assms(3) by simp
  from insert_loop_repeat[OF c3 this, of 0] obtain y a where
    l: "insert_loop (\<lambda>i. False) 0 ?k A ?x3 =
          (y, Some (Wrap (''failed to insert server '' @ a) Constraint_unique))"
    and a: "1 < count_list A a" by auto
  have cx: "conn ?x1 = InTx ?w" by simp
  have "Set_body set_ok d A ?x1 = (y, Some (Wrap (''failed to insert server '' @ a) Constraint_unique))"
    using l by (subst Set_body_to_loop[OF cx assms(2)]) (simp_all add: set_ok_def)
  from Set_begun[OF assms(1) _ this] a show ?thesis by (auto simp: set_ok_def)
qed

lemma Set_fails_rolled_back:
  assumes "Set p d A = Some (d', Some e)"
  shows "rolled_back (db d) (db d')"
proof (cases "sp_begin p")
  case True
  with Set_result[OF assms] show ?thesis by (simp add: rolled_back_def)
next
  case False
  with Set_result[OF assms] Set_body_err show ?thesis
    by (fastforce simp: rolled_back_def)
qed

text \<open>
  A run whose commit fails: \<^verbatim>\<open>Set\<close> returns the error of the commit after the call of
  \<^verbatim>\<open>Commit\<close>, the tables are those from before, the connection is free.
\<close>

lemma Set_commit_fails_run:
  "Set commit_fails (servers_store [''10.0.0.9:9000'']) [''10.0.0.1:9000'']
     = Some ((servers_store [''10.0.0.9:9000''])
               \<lparr>db := (servers_db [''10.0.0.9:9000''])
                  \<lparr>calls := [Begin, Exec_delete (''main'', ''servers''),
                     Prepare_insert (''main'', ''servers'') ''address'',
                     Exec_insert ''10.0.0.1:9000'', Commit]\<rparr>\<rparr>,
             Some (Wrap ''failed to commit transaction'' Failure))"
  by (simp add: Set_def db_Begin_def Set_body_def tx_exec_delete_def tx_prepare_insert_def
      stmt_exec_insert_def tx_Commit_def called_def commit_fails_def set_ok_def
      servers_store_def servers_db_def NewServerStore_def)

text \<open>On storage without the table, \<^verbatim>\<open>DefaultServerStore\<close> creates it, empty.\<close>

lemma DefaultServerStore_creates:
  assumes "conn (files filename) = Idle"
    and "tables (files filename) (''main'', ''servers'') = None"
  shows "\<exists>d. DefaultServerStore open_ok files filename = Some (Some d, None) \<and>
           tables (db d) = (tables (files filename))((''main'', ''servers'') \<mapsto> (''address'', [])) \<and>
           conn (db d) = Idle"
  using assms
  by (simp add: DefaultServerStore_def sql_Open_def db_exec_create_def open_ok_def
      NewServerStore_def)

text \<open>The run of \<^verbatim>\<open>Set\<close> up to the first step that fails.\<close>

lemma insert_loop_fails_at:
  "conn x = InTx w \<Longrightarrow> w k = Some (c, rows) \<Longrightarrow> j < length as \<Longrightarrow>
   f (i + j) \<or> as ! j \<in> set (rows @ take j as) \<Longrightarrow>
   (\<forall>m<j. \<not> f (i + m) \<and> as ! m \<notin> set (rows @ take m as)) \<Longrightarrow>
   \<exists>y e. insert_loop f i k as x = (y, Some (Wrap (''failed to insert server '' @ as ! j) e)) \<and>
     calls y = calls x @ map Exec_insert (take (Suc j) as) @ [Rollback] \<and>
     tables y = tables x \<and> conn y = Idle"
proof (induction as arbitrary: i j x w rows)
  case Nil
  then show ?case by simp
next
  case (Cons a as)
  show ?case
  proof (cases j)
    case 0
    with Cons.prems have "f i \<or> a \<in> set rows" by simp
    with Cons.prems(1,2) have
      "\<exists>e. stmt_exec_insert (f i) k a x = (called (Exec_insert a) x, Some e)"
      by (auto simp: stmt_exec_insert_run)
    with 0 show ?thesis by auto
  next
    case (Suc j')
    from Cons.prems(5) Suc have ok: "\<not> f i" "a \<notin> set rows" by force+
    let ?z = "(called (Exec_insert a) x)\<lparr>conn := InTx (w(k \<mapsto> (c, rows @ [a])))\<rparr>"
    from Cons.prems(1,2) ok have s: "stmt_exec_insert (f i) k a x = (?z, None)"
      by (simp add: stmt_exec_insert_run)
    have "\<exists>y e. insert_loop f (Suc i) k as ?z =
              (y, Some (Wrap (''failed to insert server '' @ as ! j') e)) \<and>
            calls y = calls ?z @ map Exec_insert (take (Suc j') as) @ [Rollback] \<and>
            tables y = tables ?z \<and> conn y = Idle"
    proof (rule Cons.IH)
      show "conn ?z = InTx (w(k \<mapsto> (c, rows @ [a])))" by simp
      show "(w(k \<mapsto> (c, rows @ [a]))) k = Some (c, rows @ [a])" by simp
      show "j' < length as" using Cons.prems(3) Suc by simp
      show "f (Suc i + j') \<or> as ! j' \<in> set ((rows @ [a]) @ take j' as)"
        using Cons.prems(4) Suc by simp
      show "\<forall>m<j'. \<not> f (Suc i + m) \<and> as ! m \<notin> set ((rows @ [a]) @ take m as)"
      proof (intro allI impI)
        fix m assume "m < j'"
        then have "Suc m < j" using Suc by simp
        with Cons.prems(5) have "\<not> f (i + Suc m) \<and> (a # as) ! Suc m \<notin> set (rows @ take (Suc m) (a # as))"
          by blast
        then show "\<not> f (Suc i + m) \<and> as ! m \<notin> set ((rows @ [a]) @ take m as)" by simp
      qed
    qed
    with s Suc show ?thesis by auto
  qed
qed

lemma insert_loop_all_ok:
  "conn x = InTx w \<Longrightarrow> w k = Some (c, rows) \<Longrightarrow>
   (\<forall>m<length as. \<not> f (i + m) \<and> as ! m \<notin> set (rows @ take m as)) \<Longrightarrow>
   \<exists>y. insert_loop f i k as x = (y, None)"
proof (induction as arbitrary: i x w rows)
  case Nil
  then show ?case by simp
next
  case (Cons a as)
  from Cons.prems(3) have ok: "\<not> f i" "a \<notin> set rows" by force+
  let ?z = "(called (Exec_insert a) x)\<lparr>conn := InTx (w(k \<mapsto> (c, rows @ [a])))\<rparr>"
  from Cons.prems(1,2) ok have s: "stmt_exec_insert (f i) k a x = (?z, None)"
    by (simp add: stmt_exec_insert_run)
  have "\<exists>y. insert_loop f (Suc i) k as ?z = (y, None)"
  proof (rule Cons.IH)
    show "conn ?z = InTx (w(k \<mapsto> (c, rows @ [a])))" by simp
    show "(w(k \<mapsto> (c, rows @ [a]))) k = Some (c, rows @ [a])" by simp
    show "\<forall>m<length as. \<not> f (Suc i + m) \<and> as ! m \<notin> set ((rows @ [a]) @ take m as)"
    proof (intro allI impI)
      fix m assume "m < length as"
      then have "Suc m < length (a # as)" by simp
      with Cons.prems(3) have "\<not> f (i + Suc m) \<and> (a # as) ! Suc m \<notin> set (rows @ take (Suc m) (a # as))"
        by blast
      then show "\<not> f (Suc i + m) \<and> as ! m \<notin> set ((rows @ [a]) @ take m as)" by simp
    qed
  qed
  with s show ?case by simp
qed

lemma Set_body_delete_fails:
  assumes "conn x = InTx w" and "sp_delete p \<or> w (schema d, table d) = None"
  shows "\<exists>e. Set_body p d A x =
           (tx_Rollback (called (Exec_delete (schema d, table d)) x),
            Some (Wrap ''failed to delete existing servers rows'' e))"
  using assms by (cases "sp_delete p") (auto simp: Set_body_def tx_exec_delete_def Let_def)

lemma Set_body_prepare_fails:
  assumes "conn x = InTx w" and "\<not> sp_delete p"
    and "w (schema d, table d) = Some (c, rows)" and "sp_prepare p \<or> c \<noteq> column d"
  shows "\<exists>e. Set_body p d A x =
           (tx_Rollback (called (Prepare_insert (schema d, table d) (column d))
              ((called (Exec_delete (schema d, table d)) x)
                 \<lparr>conn := InTx (w((schema d, table d) \<mapsto> (c, [])))\<rparr>)),
            Some (Wrap ''failed to prepare insert statement'' e))"
  using assms
  by (cases "sp_prepare p") (auto simp: Set_body_def tx_exec_delete_def tx_prepare_insert_def Let_def)

lemma find_upt_Some:
  "List.find P [0..<N] = Some n \<Longrightarrow> n < N \<and> P n \<and> (\<forall>m<n. \<not> P m)"
  by (auto simp: find_Some_iff)

lemma find_upt_None: "List.find P [0..<N] = None \<Longrightarrow> n < N \<Longrightarrow> \<not> P n"
  by (auto simp: find_None_iff)

lemma take_set_steps_insert:
  "j < length A \<Longrightarrow>
   take (Suc (Suc (Suc (Suc j)))) (set_steps d A) =
     [Begin, Exec_delete (schema d, table d), Prepare_insert (schema d, table d) (column d)]
     @ map Exec_insert (take (Suc j) A)"
  by (simp add: set_steps_def take_map)

section \<open>The claims\<close>

subsection \<open>Get\<close>

text \<open>
  Claim C10. On a table without rows, a run of \<^verbatim>\<open>Get\<close> whose begin, query and result set
  meet no failure returns the slice made by \<^verbatim>\<open>make([]string, 0)\<close>, which is allocated and
  of length zero and not \<^verbatim>\<open>nil\<close>, together with the error \<^verbatim>\<open>nil\<close>.
\<close>

theorem Get_empty_table:
  assumes "conn (db d) = Idle"
    and "tables (db d) (schema d, table d) = Some (column d, [])"
    and "\<not> gp_begin p" "\<not> gp_query p" "\<not> gp_rows_err p"
  shows "\<exists>d'. Get p d = Some (d', Slice [], None)"
  using assms
  by (simp add: Get_def db_Begin_def Get_body_def tx_query_select_def)

theorem Get_empty_table_witness:
  "conn (db (servers_store [])) = Idle \<and>
   tables (db (servers_store [])) (schema (servers_store []), table (servers_store []))
     = Some (column (servers_store []), []) \<and>
   \<not> gp_begin get_ok \<and> \<not> gp_query get_ok \<and> \<not> gp_rows_err get_ok \<and>
   (\<exists>d'. Get get_ok (servers_store []) = Some (d', Slice [], None))"
proof -
  have h1: "conn (db (servers_store [])) = Idle" by simp
  have h2: "tables (db (servers_store [])) (schema (servers_store []), table (servers_store []))
     = Some (column (servers_store []), [])" by simp
  have h3: "\<not> gp_begin get_ok" "\<not> gp_query get_ok" "\<not> gp_rows_err get_ok"
    by (simp_all add: get_ok_def)
  from Get_empty_table[OF h1 h2 h3] h1 h2 h3 show ?thesis by blast
qed

text \<open>
  Claim C8. \<^verbatim>\<open>Get\<close> returns on every path, and when it returns the connection is free: no
  transaction is left open. Where the transaction had begun (whether the query, a scan or
  the result set failed afterwards, or nothing did) the last call of \<^verbatim>\<open>Get\<close> is the deferred
  \<^verbatim>\<open>Rollback\<close>; where \<^verbatim>\<open>Begin\<close> itself failed there never was a transaction.
\<close>

theorem Get_releases_transaction:
  assumes "conn (db d) = Idle"
  shows "\<exists>d' r e. Get p d = Some (d', r, e) \<and> conn (db d') = Idle \<and>
           calls (db d') = calls (db d) @
             (if gp_begin p then [Begin]
              else [Begin, Query_select (schema d, table d) (column d), Rollback])"
proof -
  from Get_returns[OF assms] obtain d' r e where g: "Get p d = Some (d', r, e)" by blast
  from Get_frame[OF g] Get_calls[OF g] g show ?thesis by blast
qed

theorem Get_releases_transaction_witness:
  "conn (db (servers_store [''10.0.0.1:9000''])) = Idle \<and>
   (\<exists>d' r e. Get (get_ok\<lparr>gp_query := True\<rparr>) (servers_store [''10.0.0.1:9000'']) = Some (d', r, e) \<and>
      conn (db d') = Idle \<and>
      calls (db d') = [Begin, Query_select (''main'', ''servers'') ''address'', Rollback])"
proof -
  have h: "conn (db (servers_store [''10.0.0.1:9000''])) = Idle" by simp
  from Get_releases_transaction[OF h, of "get_ok\<lparr>gp_query := True\<rparr>"] h show ?thesis
    by (simp add: get_ok_def)
qed

text \<open>
  Claim C7. \<^verbatim>\<open>Get\<close> is a pure read. Whatever its plan, and so whether it succeeds or
  fails, it leaves the tables as they are and the connection free, and a \<^verbatim>\<open>Get\<close> that
  follows it returns the same addresses and the same error that it would have returned
  before it.
\<close>

theorem Get_pure_read:
  assumes "conn (db d) = Idle"
  shows "\<exists>d1 r1 e1. Get p d = Some (d1, r1, e1) \<and>
           tables (db d1) = tables (db d) \<and> conn (db d1) = Idle \<and>
           (\<exists>d2 d3 r e. Get q d = Some (d2, r, e) \<and> Get q d1 = Some (d3, r, e))"
proof -
  from Get_returns[OF assms] obtain d1 r1 e1 where g: "Get p d = Some (d1, r1, e1)" by blast
  note f = Get_frame[OF g]
  from f have "\<exists>d2 d3 r e. Get q d = Some (d2, r, e) \<and> Get q d1 = Some (d3, r, e)"
    by (intro Get_same) simp_all
  with g f show ?thesis by blast
qed

theorem Get_pure_read_witness:
  "conn (db (servers_store [''10.0.0.1:9000''])) = Idle \<and>
   (\<exists>d1 r1 e1. Get get_ok (servers_store [''10.0.0.1:9000'']) = Some (d1, r1, e1) \<and>
      tables (db d1) = tables (db (servers_store [''10.0.0.1:9000''])) \<and> conn (db d1) = Idle \<and>
      (\<exists>d2 d3 r e. Get get_ok (servers_store [''10.0.0.1:9000'']) = Some (d2, r, e) \<and>
         Get get_ok d1 = Some (d3, r, e)))"
proof -
  have h: "conn (db (servers_store [''10.0.0.1:9000''])) = Idle" by simp
  from Get_pure_read[OF h, of get_ok get_ok] h show ?thesis by blast
qed

subsection \<open>Set\<close>

text \<open>
  Claim C1. Let \<^verbatim>\<open>Set\<close> fail after its transaction has begun: at the delete, at the
  prepare, at an insert or at the commit, by a cancelled context or by any other failure.
  Then the transaction is rolled back when the error is returned (it has ended and
  the tables are what they were before the call), and a \<^verbatim>\<open>Get\<close> that follows returns what
  a \<^verbatim>\<open>Get\<close> before the call returned. After a failed delete, prepare or insert the last
  call of \<^verbatim>\<open>Set\<close> is \<^verbatim>\<open>tx.Rollback()\<close>; after a failed commit \<^verbatim>\<open>Set\<close> makes no further
  call, and the rollback is the one that the failed commit itself performs in the
  database.
\<close>

theorem Set_failure_rolls_back:
  assumes "Set p d B = Some (d', Some e)" and "\<not> sp_begin p"
  shows "rolled_back (db d) (db d') \<and>
         (\<exists>d1 d2 r g. Get q d = Some (d1, r, g) \<and> Get q d' = Some (d2, r, g)) \<and>
         (\<exists>cs. calls (db d') = calls (db d) @ cs \<and>
            (if e = Wrap ''failed to commit transaction'' Failure
             then cs = set_steps d B else last cs = Rollback))"
proof -
  let ?x = "called Begin ((db d)\<lparr>conn := InTx (tables (db d))\<rparr>)"
  from Set_result[OF assms(1)] assms(2) have
    idle: "conn (db d) = Idle" and d': "d' = d\<lparr>db := db d'\<rparr>" and
    b: "Set_body p d B ?x = (db d', Some e)" by simp_all
  from Set_body_err[OF b] have rb: "tables (db d') = tables (db d)" "conn (db d') = Idle"
    by simp_all
  have nm: "schema d' = schema d" "table d' = table d" "column d' = column d"
    by (subst d', simp)+
  have g: "\<exists>d1 d2 r g. Get q d = Some (d1, r, g) \<and> Get q d' = Some (d2, r, g)"
    using Get_same[OF idle rb(2) rb(1) nm] .
  have cx: "conn ?x = InTx (tables (db d))" by simp
  from Set_body_calls_err[OF b cx] have
    "\<exists>cs. calls (db d') = calls (db d) @ cs \<and>
            (if e = Wrap ''failed to commit transaction'' Failure
             then cs = set_steps d B else last cs = Rollback)"
  proof (elim disjE conjE exE)
    assume "e = Wrap ''failed to commit transaction'' Failure"
      "calls (db d') = calls ?x @ tl (set_steps d B)"
    then show ?thesis by (simp add: set_steps_def)
  next
    fix n
    assume "e \<noteq> Wrap ''failed to commit transaction'' Failure"
      "calls (db d') = calls ?x @ tl (take n (set_steps d B)) @ [Rollback]"
    then show ?thesis by simp
  qed
  with rb g show ?thesis by (simp add: rolled_back_def)
qed

theorem Set_failure_rolls_back_witness:
  "Set second_insert_fails (servers_store [''10.0.0.1:9000'']) [''10.0.0.2:9000'', ''10.0.0.3:9000'']
     = Some ((servers_store [''10.0.0.1:9000''])
               \<lparr>db := (servers_db [''10.0.0.1:9000''])
                  \<lparr>calls := [Begin, Exec_delete (''main'', ''servers''),
                     Prepare_insert (''main'', ''servers'') ''address'',
                     Exec_insert ''10.0.0.2:9000'', Exec_insert ''10.0.0.3:9000'', Rollback]\<rparr>\<rparr>,
             Some (Wrap ''failed to insert server 10.0.0.3:9000'' Failure)) \<and>
   \<not> sp_begin second_insert_fails \<and>
   (\<exists>d1 d2. Get get_ok (servers_store [''10.0.0.1:9000'']) = Some (d1, Slice [''10.0.0.1:9000''], None) \<and>
      Get get_ok ((servers_store [''10.0.0.1:9000''])
               \<lparr>db := (servers_db [''10.0.0.1:9000''])
                  \<lparr>calls := [Begin, Exec_delete (''main'', ''servers''),
                     Prepare_insert (''main'', ''servers'') ''address'',
                     Exec_insert ''10.0.0.2:9000'', Exec_insert ''10.0.0.3:9000'', Rollback]\<rparr>\<rparr>)
        = Some (d2, Slice [''10.0.0.1:9000''], None))"
proof -
  let ?d = "servers_store [''10.0.0.1:9000'']"
  let ?d' = "?d\<lparr>db := (servers_db [''10.0.0.1:9000''])
                  \<lparr>calls := [Begin, Exec_delete (''main'', ''servers''),
                     Prepare_insert (''main'', ''servers'') ''address'',
                     Exec_insert ''10.0.0.2:9000'', Exec_insert ''10.0.0.3:9000'', Rollback]\<rparr>\<rparr>"
  have h1: "Set second_insert_fails ?d [''10.0.0.2:9000'', ''10.0.0.3:9000'']
     = Some (?d', Some (Wrap ''failed to insert server 10.0.0.3:9000'' Failure))"
    by (simp add: Set_def db_Begin_def Set_body_def tx_exec_delete_def tx_prepare_insert_def
        stmt_exec_insert_def tx_Rollback_def called_def second_insert_fails_def set_ok_def
        servers_store_def servers_db_def NewServerStore_def)
  have h2: "\<not> sp_begin second_insert_fails" by (simp add: second_insert_fails_def set_ok_def)
  have g: "\<exists>d1. Get get_ok ?d = Some (d1, Slice [''10.0.0.1:9000''], None)"
    by (rule Get_ok) simp_all
  from Set_failure_rolls_back[OF h1 h2, of get_ok] g h1 h2 show ?thesis by auto
qed

text \<open>
  Claim C2. For addresses without repetition, whatever rows the table held before,
  \<^verbatim>\<open>Set\<close> followed by \<^verbatim>\<open>Get\<close> (no failure of the environment) returns a sequence with
  exactly the elements given to \<^verbatim>\<open>Set\<close>, each of them once.
\<close>

theorem Set_then_Get:
  assumes "conn (db d) = Idle"
    and "tables (db d) (schema d, table d) = Some (column d, rows)"
    and "distinct A"
  shows "\<exists>d' d'' r. Set set_ok d A = Some (d', None) \<and> Get get_ok d' = Some (d'', r, None) \<and>
           set (elems r) = set A \<and> distinct (elems r)"
proof -
  from Set_ok_run[OF assms] obtain y where
    y: "Set set_ok d A = Some (d\<lparr>db := y\<rparr>, None)" "conn y = Idle"
       "tables y = (tables (db d))((schema d, table d) \<mapsto> (column d, A))" by blast
  have "\<exists>d''. Get get_ok (d\<lparr>db := y\<rparr>) = Some (d'', Slice A, None)"
    by (rule Get_ok) (simp_all add: y)
  with y(1) assms(3) show ?thesis by fastforce
qed

theorem Set_then_Get_witness:
  "conn (db (servers_store [''10.0.0.9:9000''])) = Idle \<and>
   tables (db (servers_store [''10.0.0.9:9000'']))
      (schema (servers_store [''10.0.0.9:9000'']), table (servers_store [''10.0.0.9:9000'']))
     = Some (column (servers_store [''10.0.0.9:9000'']), [''10.0.0.9:9000'']) \<and>
   distinct [''10.0.0.1:9000'', ''10.0.0.2:9000''] \<and>
   (\<exists>d' d'' r. Set set_ok (servers_store [''10.0.0.9:9000'']) [''10.0.0.1:9000'', ''10.0.0.2:9000'']
        = Some (d', None) \<and>
      Get get_ok d' = Some (d'', r, None) \<and>
      set (elems r) = {''10.0.0.1:9000'', ''10.0.0.2:9000''})"
proof -
  let ?d = "servers_store [''10.0.0.9:9000'']"
  have h1: "conn (db ?d) = Idle" by simp
  have h2: "tables (db ?d) (schema ?d, table ?d) = Some (column ?d, [''10.0.0.9:9000''])" by simp
  have h3: "distinct [''10.0.0.1:9000'', ''10.0.0.2:9000'']" by simp
  from Set_then_Get[OF h1 h2 h3] h1 h2 h3 show ?thesis by auto
qed

text \<open>
  Claim C3. For addresses with a repetition, \<^verbatim>\<open>Set\<close> fails whatever the plan and the
  transaction is rolled back. Without a failure of the environment the error is the one
  of the insert of a repeated address and carries the violation of the unique
  constraint as its cause, which tells it from every other failure of a write; a
  \<^verbatim>\<open>Get\<close> that follows returns the rows that the table held before.
\<close>

theorem Set_repeated_address:
  assumes "conn (db d) = Idle"
    and "tables (db d) (schema d, table d) = Some (column d, rows)"
    and "\<not> distinct A"
  shows "(\<exists>d' a d''. Set set_ok d A =
             Some (d', Some (Wrap (''failed to insert server '' @ a) Constraint_unique)) \<and>
           1 < count_list A a \<and> rolled_back (db d) (db d') \<and>
           Get get_ok d' = Some (d'', Slice rows, None)) \<and>
         (\<exists>d' e. Set p d A = Some (d', Some e) \<and> rolled_back (db d) (db d'))"
proof
  from Set_repeat_run[OF assms] obtain y a where
    s: "Set set_ok d A =
          Some (d\<lparr>db := y\<rparr>, Some (Wrap (''failed to insert server '' @ a) Constraint_unique))"
    and a: "1 < count_list A a" by blast
  from Set_fails_rolled_back[OF s] have rb: "rolled_back (db d) y" by simp
  have "\<exists>d''. Get get_ok (d\<lparr>db := y\<rparr>) = Some (d'', Slice rows, None)"
    by (rule Get_ok) (use rb assms(2) in \<open>simp_all add: rolled_back_def\<close>)
  with s a rb show "\<exists>d' a d''. Set set_ok d A =
             Some (d', Some (Wrap (''failed to insert server '' @ a) Constraint_unique)) \<and>
           1 < count_list A a \<and> rolled_back (db d) (db d') \<and>
           Get get_ok d' = Some (d'', Slice rows, None)" by fastforce
next
  from Set_returns[OF assms(1)] obtain y r where s: "Set p d A = Some (d\<lparr>db := y\<rparr>, r)"
    by blast
  have "r \<noteq> None"
  proof
    assume n: "r = None"
    from Set_result[OF s] n have nb: "\<not> sp_begin p" by auto
    with Set_result[OF s] n have
      "Set_body p d A (called Begin ((db d)\<lparr>conn := InTx (tables (db d))\<rparr>)) = (y, None)"
      by simp
    from Set_body_done[OF this] have "distinct A" by simp
    with assms(3) show False by simp
  qed
  then obtain e where "r = Some e" by auto
  with s Set_fails_rolled_back[of p d A "d\<lparr>db := y\<rparr>" e]
  show "\<exists>d' e. Set p d A = Some (d', Some e) \<and> rolled_back (db d) (db d')" by blast
qed

theorem Set_repeated_address_witness:
  "conn (db (servers_store [''10.0.0.9:9000''])) = Idle \<and>
   tables (db (servers_store [''10.0.0.9:9000'']))
      (schema (servers_store [''10.0.0.9:9000'']), table (servers_store [''10.0.0.9:9000'']))
     = Some (column (servers_store [''10.0.0.9:9000'']), [''10.0.0.9:9000'']) \<and>
   \<not> distinct [''10.0.0.1:9000'', ''10.0.0.2:9000'', ''10.0.0.1:9000''] \<and>
   (\<exists>d' a d''. Set set_ok (servers_store [''10.0.0.9:9000''])
          [''10.0.0.1:9000'', ''10.0.0.2:9000'', ''10.0.0.1:9000'']
        = Some (d', Some (Wrap (''failed to insert server '' @ a) Constraint_unique)) \<and>
      1 < count_list [''10.0.0.1:9000'', ''10.0.0.2:9000'', ''10.0.0.1:9000''] a \<and>
      rolled_back (db (servers_store [''10.0.0.9:9000''])) (db d') \<and>
      Get get_ok d' = Some (d'', Slice [''10.0.0.9:9000''], None)) \<and>
   (\<exists>d' e. Set commit_fails (servers_store [''10.0.0.9:9000''])
          [''10.0.0.1:9000'', ''10.0.0.2:9000'', ''10.0.0.1:9000'']
        = Some (d', Some e) \<and>
      rolled_back (db (servers_store [''10.0.0.9:9000''])) (db d'))"
proof -
  let ?d = "servers_store [''10.0.0.9:9000'']"
  have h1: "conn (db ?d) = Idle" by simp
  have h2: "tables (db ?d) (schema ?d, table ?d) = Some (column ?d, [''10.0.0.9:9000''])" by simp
  have h3: "\<not> distinct [''10.0.0.1:9000'', ''10.0.0.2:9000'', ''10.0.0.1:9000'']" by simp
  from Set_repeated_address[OF h1 h2 h3, of commit_fails] h1 h2 h3 show ?thesis by blast
qed

text \<open>
  Claim C4. \<^verbatim>\<open>Set\<close> of no addresses succeeds (no failure of the environment) whatever
  rows the table held, and a \<^verbatim>\<open>Get\<close> that follows returns an empty sequence.
\<close>

theorem Set_empty_clears:
  assumes "conn (db d) = Idle"
    and "tables (db d) (schema d, table d) = Some (column d, rows)"
  shows "\<exists>d' d''. Set set_ok d [] = Some (d', None) \<and> Get get_ok d' = Some (d'', Slice [], None)"
proof -
  from Set_ok_run[OF assms, of "[]"] obtain y where
    y: "Set set_ok d [] = Some (d\<lparr>db := y\<rparr>, None)" "conn y = Idle"
       "tables y = (tables (db d))((schema d, table d) \<mapsto> (column d, []))" by auto
  have "\<exists>d''. Get get_ok (d\<lparr>db := y\<rparr>) = Some (d'', Slice [], None)"
    by (rule Get_ok) (simp_all add: y)
  with y(1) show ?thesis by blast
qed

theorem Set_empty_clears_witness:
  "conn (db (servers_store [''10.0.0.1:9000'', ''10.0.0.2:9000''])) = Idle \<and>
   tables (db (servers_store [''10.0.0.1:9000'', ''10.0.0.2:9000'']))
      (schema (servers_store [''10.0.0.1:9000'', ''10.0.0.2:9000'']),
       table (servers_store [''10.0.0.1:9000'', ''10.0.0.2:9000'']))
     = Some (column (servers_store [''10.0.0.1:9000'', ''10.0.0.2:9000'']),
             [''10.0.0.1:9000'', ''10.0.0.2:9000'']) \<and>
   (\<exists>d' d''. Set set_ok (servers_store [''10.0.0.1:9000'', ''10.0.0.2:9000'']) [] = Some (d', None) \<and>
      Get get_ok d' = Some (d'', Slice [], None))"
proof -
  let ?d = "servers_store [''10.0.0.1:9000'', ''10.0.0.2:9000'']"
  have h1: "conn (db ?d) = Idle" by simp
  have h2: "tables (db ?d) (schema ?d, table ?d)
              = Some (column ?d, [''10.0.0.1:9000'', ''10.0.0.2:9000''])" by simp
  from Set_empty_clears[OF h1 h2] h1 h2 show ?thesis by blast
qed

text \<open>
  Claim C5. \<^verbatim>\<open>Set\<close> on a free connection returns, and its calls are those of \<open>set_steps\<close>
  in their order: \<^verbatim>\<open>Begin\<close>, the delete of all rows, the prepare of the insert on the
  column, one insert for each address in the order of the input, \<^verbatim>\<open>Commit\<close>. When no step
  fails it makes all of them, returns no error, and the table holds one row for each
  address. When \<open>n\<close> is the first step that fails, it makes the steps up to step \<open>n\<close>
  and no later one, returns the error of step \<open>n\<close> and leaves the tables unchanged; if
  step \<open>n\<close> is the delete, the prepare or an insert, its next and last call is
  \<^verbatim>\<open>Rollback\<close>. So a transaction that has begun ends with the call of \<^verbatim>\<open>Commit\<close> or of
  \<^verbatim>\<open>Rollback\<close>, and the connection is free when \<^verbatim>\<open>Set\<close> returns. When \<^verbatim>\<open>Begin\<close> itself fails
  no transaction exists and \<^verbatim>\<open>Set\<close> makes no further call.
\<close>

theorem Set_follows_steps:
  assumes "conn (db d) = Idle"
  shows "\<exists>d' r. Set p d A = Some (d', r) \<and> conn (db d') = Idle \<and>
           (case List.find (step_fails p d A) [0..<length A + 4] of
              None \<Rightarrow>
                r = None \<and>
                calls (db d') = calls (db d) @ set_steps d A \<and>
                tables (db d') = (tables (db d))((schema d, table d) \<mapsto> (column d, A))
            | Some n \<Rightarrow>
                (\<exists>e. r = Some (Wrap (step_message A n) e)) \<and>
                tables (db d') = tables (db d) \<and>
                calls (db d') = calls (db d) @ take (Suc n) (set_steps d A) @
                  (if 0 < n \<and> n < length A + 3 then [Rollback] else []))"
proof -
  let ?k = "(schema d, table d)" and ?w = "tables (db d)" and ?N = "length A"
  let ?P = "step_fails p d A"
  let ?x = "called Begin ((db d)\<lparr>conn := InTx ?w\<rparr>)"
  have cx: "conn ?x = InTx ?w" by simp
  show ?thesis
  proof (cases "List.find ?P [0..<?N + 4]")
    case None
    note all = find_upt_None[OF None]
    from all[of 0] have nb: "\<not> sp_begin p" by (simp add: step_fails_def)
    from all[of 1] obtain c rows where nd: "\<not> sp_delete p" and t: "?w ?k = Some (c, rows)"
      by (auto simp: step_fails_def)
    from all[of 2] t have np: "\<not> sp_prepare p" and c: "c = column d"
      by (auto simp: step_fails_def)
    have ins: "\<forall>m<?N. \<not> sp_insert p (0 + m) \<and> A ! m \<notin> set ([] @ take m A)"
    proof (intro allI impI)
      fix m assume m: "m < ?N"
      with all[of "m + 3"] show "\<not> sp_insert p (0 + m) \<and> A ! m \<notin> set ([] @ take m A)"
        by (simp add: step_fails_def)
    qed
    from all[of "?N + 3"] have nc: "\<not> sp_commit p" by (simp add: step_fails_def)
    let ?x3 = "called (Prepare_insert ?k (column d))
                ((called (Exec_delete ?k) ?x)\<lparr>conn := InTx (?w(?k \<mapsto> (column d, [])))\<rparr>)"
    have c3: "conn ?x3 = InTx (?w(?k \<mapsto> (column d, [])))"
      "(?w(?k \<mapsto> (column d, []))) ?k = Some (column d, [])" by simp_all
    from insert_loop_all_ok[OF c3 ins] obtain x4 where
      s4: "insert_loop (sp_insert p) 0 ?k A ?x3 = (x4, None)" by blast
    from insert_loop_done[OF s4] c3 have
      t4: "calls x4 = calls ?x3 @ map Exec_insert A"
      "conn x4 = InTx ((?w(?k \<mapsto> (column d, [])))(?k \<mapsto> (column d, [] @ A)))" by blast+
    let ?x5 = "(called Commit x4)\<lparr>tables := ?w(?k \<mapsto> (column d, A)), conn := Idle\<rparr>"
    have s5: "tx_Commit (sp_commit p) x4 = (?x5, None)"
      using t4(2) nc by (simp add: tx_Commit_def)
    have "Set_body p d A ?x = (?x5, None)"
      using s4 s5 by (subst Set_body_to_loop[OF cx t[unfolded c] nd np]) simp
    from Set_begun[OF assms nb this] have "Set p d A = Some (d\<lparr>db := ?x5\<rparr>, None)" .
    moreover have "calls ?x5 = calls (db d) @ set_steps d A"
      using t4(1) by (simp add: set_steps_def)
    ultimately show ?thesis using None
      by (intro exI[of _ "d\<lparr>db := ?x5\<rparr>"] exI[of _ None]) simp
  next
    case (Some n)
    from find_upt_Some[OF Some] have n: "n < ?N + 4" "?P n" and before: "\<And>m. m < n \<Longrightarrow> \<not> ?P m"
      by blast+
    consider (at_begin) "n = 0" | (at_delete) "n = 1" | (at_prepare) "n = 2"
      | (at_insert) "3 \<le> n" "n < ?N + 3" | (at_commit) "n = ?N + 3"
      using n(1) by linarith
    then show ?thesis
    proof cases
      case at_begin
      with n(2) have "sp_begin p" by (simp add: step_fails_def)
      from Set_begin_fails[OF assms this, of A] Some at_begin assms show ?thesis
        by (simp add: step_message_def set_steps_def)
    next
      case at_delete
      from before[of 0] at_delete have nb: "\<not> sp_begin p" by (simp add: step_fails_def)
      from n(2) at_delete have "sp_delete p \<or> ?w ?k = None" by (simp add: step_fails_def)
      from Set_body_delete_fails[OF cx this, of A] obtain e where
        "Set_body p d A ?x = (tx_Rollback (called (Exec_delete ?k) ?x),
            Some (Wrap ''failed to delete existing servers rows'' e))" by blast
      from Set_begun[OF assms nb this] Some at_delete show ?thesis
        by (simp add: step_message_def set_steps_def)
    next
      case at_prepare
      from before[of 0] at_prepare have nb: "\<not> sp_begin p" by (simp add: step_fails_def)
      from before[of 1] at_prepare obtain c rows where nd: "\<not> sp_delete p" and t: "?w ?k = Some (c, rows)"
        by (auto simp: step_fails_def)
      from n(2) at_prepare t have "sp_prepare p \<or> c \<noteq> column d" by (simp add: step_fails_def)
      from Set_body_prepare_fails[OF cx nd t this, of A] obtain e where
        "Set_body p d A ?x =
           (tx_Rollback (called (Prepare_insert ?k (column d))
              ((called (Exec_delete ?k) ?x)\<lparr>conn := InTx (?w(?k \<mapsto> (c, [])))\<rparr>)),
            Some (Wrap ''failed to prepare insert statement'' e))" by blast
      from Set_begun[OF assms nb this] Some at_prepare show ?thesis
        by (simp add: step_message_def set_steps_def)
    next
      case at_insert
      define j where "j = n - 3"
      with at_insert have nj: "n = Suc (Suc (Suc j))" and j: "j < ?N" by simp_all
      from before[of 0] at_insert have nb: "\<not> sp_begin p" by (simp add: step_fails_def)
      from before[of 1] at_insert obtain c rows where nd: "\<not> sp_delete p" and t: "?w ?k = Some (c, rows)"
        by (auto simp: step_fails_def)
      from before[of 2] at_insert t have np: "\<not> sp_prepare p" and c: "c = column d"
        by (auto simp: step_fails_def)
      from n(2) nj j have bad: "sp_insert p (0 + j) \<or> A ! j \<in> set ([] @ take j A)"
        by (simp add: step_fails_def)
      have good: "\<forall>m<j. \<not> sp_insert p (0 + m) \<and> A ! m \<notin> set ([] @ take m A)"
      proof (intro allI impI)
        fix m assume m: "m < j"
        with before[of "m + 3"] nj j show "\<not> sp_insert p (0 + m) \<and> A ! m \<notin> set ([] @ take m A)"
          by (simp add: step_fails_def)
      qed
      let ?x3 = "called (Prepare_insert ?k (column d))
                ((called (Exec_delete ?k) ?x)\<lparr>conn := InTx (?w(?k \<mapsto> (column d, [])))\<rparr>)"
      have c3: "conn ?x3 = InTx (?w(?k \<mapsto> (column d, [])))"
        "(?w(?k \<mapsto> (column d, []))) ?k = Some (column d, [])" by simp_all
      from insert_loop_fails_at[OF c3 j bad good] obtain y e where
        l: "insert_loop (sp_insert p) 0 ?k A ?x3 =
              (y, Some (Wrap (''failed to insert server '' @ A ! j) e))"
        and y: "calls y = calls ?x3 @ map Exec_insert (take (Suc j) A) @ [Rollback]"
          "tables y = tables ?x3" "conn y = Idle" by blast
      have "Set_body p d A ?x = (y, Some (Wrap (''failed to insert server '' @ A ! j) e))"
        using l by (subst Set_body_to_loop[OF cx t[unfolded c] nd np]) simp
      from Set_begun[OF assms nb this] have
        s: "Set p d A = Some (d\<lparr>db := y\<rparr>, Some (Wrap (''failed to insert server '' @ A ! j) e))" .
      have m: "step_message A n = ''failed to insert server '' @ A ! j"
        using nj j by (simp add: step_message_def)
      have "calls y = calls (db d) @ take (Suc n) (set_steps d A) @ [Rollback]"
        using y(1) by (simp add: nj take_set_steps_insert[OF j])
      with s y(2,3) m Some at_insert show ?thesis
        by (intro exI[of _ "d\<lparr>db := y\<rparr>"]
            exI[of _ "Some (Wrap (''failed to insert server '' @ A ! j) e)"]) simp
    next
      case at_commit
      from before[of 0] at_commit have nb: "\<not> sp_begin p" by (simp add: step_fails_def)
      from before[of 1] at_commit obtain c rows where nd: "\<not> sp_delete p" and t: "?w ?k = Some (c, rows)"
        by (auto simp: step_fails_def)
      from before[of 2] at_commit t have np: "\<not> sp_prepare p" and c: "c = column d"
        by (auto simp: step_fails_def)
      have ins: "\<forall>m<?N. \<not> sp_insert p (0 + m) \<and> A ! m \<notin> set ([] @ take m A)"
      proof (intro allI impI)
        fix m assume m: "m < ?N"
        with before[of "m + 3"] at_commit show "\<not> sp_insert p (0 + m) \<and> A ! m \<notin> set ([] @ take m A)"
          by (simp add: step_fails_def)
      qed
      from n(2) at_commit have fc: "sp_commit p" by (simp add: step_fails_def)
      let ?x3 = "called (Prepare_insert ?k (column d))
                ((called (Exec_delete ?k) ?x)\<lparr>conn := InTx (?w(?k \<mapsto> (column d, [])))\<rparr>)"
      have c3: "conn ?x3 = InTx (?w(?k \<mapsto> (column d, [])))"
        "(?w(?k \<mapsto> (column d, []))) ?k = Some (column d, [])" by simp_all
      from insert_loop_all_ok[OF c3 ins] obtain x4 where
        s4: "insert_loop (sp_insert p) 0 ?k A ?x3 = (x4, None)" by blast
      from insert_loop_done[OF s4] c3 have
        t4: "calls x4 = calls ?x3 @ map Exec_insert A" "tables x4 = tables ?x3"
        "conn x4 = InTx ((?w(?k \<mapsto> (column d, [])))(?k \<mapsto> (column d, [] @ A)))" by blast+
      let ?x5 = "(called Commit x4)\<lparr>conn := Idle\<rparr>"
      have s5: "tx_Commit (sp_commit p) x4 = (?x5, Some Failure)"
        using t4(3) fc by (simp add: tx_Commit_def)
      have "Set_body p d A ?x = (?x5, Some (Wrap ''failed to commit transaction'' Failure))"
        using s4 s5 by (subst Set_body_to_loop[OF cx t[unfolded c] nd np]) simp
      from Set_begun[OF assms nb this] have
        s: "Set p d A = Some (d\<lparr>db := ?x5\<rparr>, Some (Wrap ''failed to commit transaction'' Failure))" .
      have "calls ?x5 = calls (db d) @ set_steps d A" "tables ?x5 = ?w"
        using t4(1,2) by (simp_all add: set_steps_def)
      moreover have "take (Suc n) (set_steps d A) = set_steps d A"
        using at_commit by (simp add: set_steps_def)
      moreover have "step_message A n = ''failed to commit transaction''"
        using at_commit by (simp add: step_message_def)
      ultimately show ?thesis using s Some at_commit
        by (intro exI[of _ "d\<lparr>db := ?x5\<rparr>"]
            exI[of _ "Some (Wrap ''failed to commit transaction'' Failure)"]) simp
    qed
  qed
qed

theorem Set_follows_steps_witness:
  "conn (db (servers_store [''10.0.0.9:9000''])) = Idle \<and>
   List.find (step_fails set_ok (servers_store [''10.0.0.9:9000''])
                [''10.0.0.1:9000'', ''10.0.0.2:9000''])
     [0..<length [''10.0.0.1:9000'', ''10.0.0.2:9000''] + 4] = None \<and>
   (\<exists>d'. Set set_ok (servers_store [''10.0.0.9:9000'']) [''10.0.0.1:9000'', ''10.0.0.2:9000'']
           = Some (d', None) \<and>
      conn (db d') = Idle \<and>
      calls (db d') = [Begin, Exec_delete (''main'', ''servers''),
                       Prepare_insert (''main'', ''servers'') ''address'',
                       Exec_insert ''10.0.0.1:9000'', Exec_insert ''10.0.0.2:9000'', Commit] \<and>
      tables (db d') (''main'', ''servers'')
        = Some (''address'', [''10.0.0.1:9000'', ''10.0.0.2:9000''])) \<and>
   List.find (step_fails (set_ok\<lparr>sp_delete := True\<rparr>) (servers_store [''10.0.0.9:9000''])
                [''10.0.0.1:9000'', ''10.0.0.2:9000''])
     [0..<length [''10.0.0.1:9000'', ''10.0.0.2:9000''] + 4] = Some 1 \<and>
   (\<exists>d' e. Set (set_ok\<lparr>sp_delete := True\<rparr>) (servers_store [''10.0.0.9:9000''])
             [''10.0.0.1:9000'', ''10.0.0.2:9000'']
           = Some (d', Some (Wrap ''failed to delete existing servers rows'' e)) \<and>
      conn (db d') = Idle \<and>
      calls (db d') = [Begin, Exec_delete (''main'', ''servers''), Rollback] \<and>
      tables (db d') (''main'', ''servers'') = Some (''address'', [''10.0.0.9:9000''])) \<and>
   List.find (step_fails second_insert_fails (servers_store [''10.0.0.9:9000''])
                [''10.0.0.1:9000'', ''10.0.0.2:9000''])
     [0..<length [''10.0.0.1:9000'', ''10.0.0.2:9000''] + 4] = Some 4 \<and>
   (\<exists>d' e. Set second_insert_fails (servers_store [''10.0.0.9:9000''])
             [''10.0.0.1:9000'', ''10.0.0.2:9000'']
           = Some (d', Some (Wrap ''failed to insert server 10.0.0.2:9000'' e)) \<and>
      conn (db d') = Idle \<and>
      calls (db d') = [Begin, Exec_delete (''main'', ''servers''),
                       Prepare_insert (''main'', ''servers'') ''address'',
                       Exec_insert ''10.0.0.1:9000'', Exec_insert ''10.0.0.2:9000'', Rollback] \<and>
      tables (db d') (''main'', ''servers'') = Some (''address'', [''10.0.0.9:9000'']))"
proof -
  let ?d = "servers_store [''10.0.0.9:9000'']"
  let ?A = "[''10.0.0.1:9000'', ''10.0.0.2:9000'']"
  have h: "conn (db ?d) = Idle" by simp
  have u: "[0..<length ?A + 4] = [0, 1, 2, 3, 4, 5]"
    by (simp add: upt_conv_Cons numeral_eq_Suc)
  have f1: "List.find (step_fails set_ok ?d ?A) [0..<length ?A + 4] = None"
    unfolding u by (simp add: step_fails_def set_ok_def)
  have f2: "List.find (step_fails (set_ok\<lparr>sp_delete := True\<rparr>) ?d ?A) [0..<length ?A + 4] = Some 1"
    unfolding u by (simp add: step_fails_def set_ok_def)
  have f3: "List.find (step_fails second_insert_fails ?d ?A) [0..<length ?A + 4] = Some 4"
    unfolding u by (simp add: step_fails_def second_insert_fails_def set_ok_def)
  have st: "set_steps ?d ?A = [Begin, Exec_delete (''main'', ''servers''),
                       Prepare_insert (''main'', ''servers'') ''address'',
                       Exec_insert ''10.0.0.1:9000'', Exec_insert ''10.0.0.2:9000'', Commit]"
    by (simp add: set_steps_def)
  have m: "step_message ?A 1 = ''failed to delete existing servers rows''"
    "step_message ?A 4 = ''failed to insert server 10.0.0.2:9000''"
    by (simp_all add: step_message_def)
  have r1: "\<exists>d'. Set set_ok ?d ?A = Some (d', None) \<and> conn (db d') = Idle \<and>
      calls (db d') = set_steps ?d ?A \<and>
      tables (db d') (''main'', ''servers'') = Some (''address'', ?A)"
    using Set_follows_steps[OF h, of set_ok ?A, unfolded f1] by auto
  have r2: "\<exists>d' e. Set (set_ok\<lparr>sp_delete := True\<rparr>) ?d ?A
           = Some (d', Some (Wrap ''failed to delete existing servers rows'' e)) \<and>
      conn (db d') = Idle \<and>
      calls (db d') = [Begin, Exec_delete (''main'', ''servers''), Rollback] \<and>
      tables (db d') (''main'', ''servers'') = Some (''address'', [''10.0.0.9:9000''])"
    using Set_follows_steps[OF h, of "set_ok\<lparr>sp_delete := True\<rparr>" ?A, unfolded f2 option.case m]
    by (auto simp: m st)
  have r3: "\<exists>d' e. Set second_insert_fails ?d ?A
           = Some (d', Some (Wrap ''failed to insert server 10.0.0.2:9000'' e)) \<and>
      conn (db d') = Idle \<and>
      calls (db d') = [Begin, Exec_delete (''main'', ''servers''),
                       Prepare_insert (''main'', ''servers'') ''address'',
                       Exec_insert ''10.0.0.1:9000'', Exec_insert ''10.0.0.2:9000'', Rollback] \<and>
      tables (db d') (''main'', ''servers'') = Some (''address'', [''10.0.0.9:9000''])"
    using Set_follows_steps[OF h, of second_insert_fails ?A, unfolded f3 option.case m]
    by (auto simp: m st)
  from h f1 f2 f3 r1[unfolded st] r2 r3 show ?thesis by blast
qed

subsection \<open>DefaultServerStore\<close>

text \<open>
  Claim C9. On storage where the table \<^verbatim>\<open>servers\<close> of the schema \<^verbatim>\<open>main\<close> exists,
  \<^verbatim>\<open>DefaultServerStore\<close> (no failure of the environment) changes nothing: the database of
  the store that it returns is the one found under the file name. The store has the
  names \<^verbatim>\<open>main\<close>, \<^verbatim>\<open>servers\<close> and \<^verbatim>\<open>address\<close>, and where the table has the layout that
  \<^verbatim>\<open>DefaultServerStore\<close> creates, with the column \<^verbatim>\<open>address\<close>, \<^verbatim>\<open>Get\<close> on it returns the rows
  of the table.
\<close>

theorem DefaultServerStore_idempotent:
  assumes "conn (files filename) = Idle"
    and "tables (files filename) (''main'', ''servers'') = Some (c, rows)"
  shows "\<exists>d. DefaultServerStore open_ok files filename = Some (Some d, None) \<and>
           db d = files filename \<and>
           schema d = ''main'' \<and> table d = ''servers'' \<and> column d = ''address'' \<and>
           (c = ''address'' \<longrightarrow> (\<exists>d'. Get get_ok d = Some (d', Slice rows, None)))"
proof -
  let ?d = "NewServerStore (files filename) ''main'' ''servers'' ''address''"
  have r: "DefaultServerStore open_ok files filename = Some (Some ?d, None)"
    using assms by (simp add: DefaultServerStore_def sql_Open_def db_exec_create_def open_ok_def)
  have n: "db ?d = files filename" "schema ?d = ''main''" "table ?d = ''servers''"
    "column ?d = ''address''" by (simp_all add: NewServerStore_def)
  have "c = ''address'' \<longrightarrow> (\<exists>d'. Get get_ok ?d = Some (d', Slice rows, None))"
  proof
    assume "c = ''address''"
    show "\<exists>d'. Get get_ok ?d = Some (d', Slice rows, None)"
      by (rule Get_ok) (use assms n \<open>c = ''address''\<close> in simp_all)
  qed
  with r n show ?thesis by blast
qed

theorem DefaultServerStore_idempotent_witness:
  "conn (servers_files [''10.0.0.1:9000''] ''servers.db'') = Idle \<and>
   tables (servers_files [''10.0.0.1:9000''] ''servers.db'') (''main'', ''servers'')
     = Some (''address'', [''10.0.0.1:9000'']) \<and>
   (\<exists>d. DefaultServerStore open_ok (servers_files [''10.0.0.1:9000'']) ''servers.db''
           = Some (Some d, None) \<and>
      db d = servers_files [''10.0.0.1:9000''] ''servers.db'' \<and>
      schema d = ''main'' \<and> table d = ''servers'' \<and> column d = ''address'' \<and>
      (\<exists>d'. Get get_ok d = Some (d', Slice [''10.0.0.1:9000''], None)))"
proof -
  have h1: "conn (servers_files [''10.0.0.1:9000''] ''servers.db'') = Idle"
    by (simp add: servers_files_def)
  have h2: "tables (servers_files [''10.0.0.1:9000''] ''servers.db'') (''main'', ''servers'')
     = Some (''address'', [''10.0.0.1:9000''])" by (simp add: servers_files_def)
  from DefaultServerStore_idempotent[of "servers_files [''10.0.0.1:9000'']" "''servers.db''", OF h1 h2]
    h1 h2 show ?thesis by blast
qed

end
